theory Spec2Isabelle
  imports Main "HOL-Library.AList"
begin

section \<open>Python strings\<close>

text \<open>
  A Python \<^verbatim>\<open>str\<close> is a \<^typ>\<open>string\<close>; each \<^typ>\<open>char\<close> stands for one code point
  below 256, so \<^const>\<open>length\<close> is Python's \<^verbatim>\<open>len\<close> on such texts.
  \<^verbatim>\<open>str.isspace\<close> holds below 256 for the code points 9-13, 28-32, 133 and 160.
\<close>

definition isspace :: "char \<Rightarrow> bool" where
  "isspace c = (of_char c \<in> {9, 10, 11, 12, 13, 28, 29, 30, 31, 32, 133, 160 :: nat})"

text \<open>\<^verbatim>\<open>s.strip()\<close>: leading and trailing whitespace removed.\<close>

definition strip :: "string \<Rightarrow> string" where
  "strip s = rev (dropWhile isspace (rev (dropWhile isspace s)))"

text \<open>\<^verbatim>\<open>s.split\<close> at the line feed: the pieces between line feeds; one piece for a text without any.\<close>

fun split_newline :: "string \<Rightarrow> string list" where
  "split_newline [] = [[]]"
| "split_newline (c # cs) =
     (if c = CHR 0x0A then [] # split_newline cs
      else (case split_newline cs of
              [] \<Rightarrow> [[c]]
            | l # ls \<Rightarrow> (c # l) # ls))"

text \<open>\<^verbatim>\<open>str(n)\<close> for a natural number, as the f-strings print it.\<close>

fun str_nat :: "nat \<Rightarrow> string" where
  "str_nat n =
     (if n < 10 then [char_of (48 + n)]
      else str_nat (n div 10) @ [char_of (48 + n mod 10)])"

declare str_nat.simps [simp del]

section \<open>Chapter segmentation (services/pdf_processor.py)\<close>

text \<open>A chapter dictionary: the keys \<^verbatim>\<open>chapter_number\<close>, \<^verbatim>\<open>title\<close> and \<^verbatim>\<open>content\<close>.\<close>

record chapter_dict =
  chapter_number :: int
  title :: string
  content :: string

subsection \<open>\<^verbatim>\<open>_extract_chapter_title\<close>\<close>

text \<open>The first loop: the first of \<^verbatim>\<open>lines[:3]\<close> that is, stripped, non-empty and shorter
  than 100 characters.\<close>

fun clear_title :: "string list \<Rightarrow> string option" where
  "clear_title [] = None"
| "clear_title (line # rest) =
     (let line = strip line in
      if line \<noteq> [] \<and> length line < 100 then Some line else clear_title rest)"

text \<open>The second loop: the first non-empty stripped line, cut after 100 characters.\<close>

fun fallback_title :: "string list \<Rightarrow> string option" where
  "fallback_title [] = None"
| "fallback_title (line # rest) =
     (let line = strip line in
      if line \<noteq> [] then Some (if length line > 100 then take 100 line @ ''...'' else line)
      else fallback_title rest)"

definition extract_chapter_title :: "string \<Rightarrow> string" where
  "extract_chapter_title chapter_text =
     (let lines = split_newline (strip chapter_text) in
      case clear_title (take 3 lines) of
        Some line \<Rightarrow> line
      | None \<Rightarrow>
         (case fallback_title lines of
            Some line \<Rightarrow> line
          | None \<Rightarrow> ''Untitled Chapter''))"

text \<open>
  The title rule as the specification words it: the first three non-empty lines are scanned
  for one shorter than 100 characters; failing that the first non-empty line, cut with an
  ellipsis; failing that the placeholder.
\<close>

definition spec_chapter_title :: "string \<Rightarrow> string" where
  "spec_chapter_title chapter_text =
     (let nonempty = filter (\<lambda>l. l \<noteq> []) (map strip (split_newline chapter_text)) in
      case find (\<lambda>l. length l < 100) (take 3 nonempty) of
        Some line \<Rightarrow> line
      | None \<Rightarrow>
         (case nonempty of
            line # _ \<Rightarrow> (if length line > 100 then take 100 line @ ''...'' else line)
          | [] \<Rightarrow> ''Untitled Chapter''))"

subsection \<open>\<^verbatim>\<open>_split_into_chapters\<close>\<close>

text \<open>
  The five boundary patterns of \<^verbatim>\<open>chapter_patterns\<close>, in the order of the list (a Chinese
  character is written by its code point):
  \<^item> \<open>Zh_Chapter\<close> is
    \<^verbatim>\<open>U+7B2C[U+4E00 U+4E8C U+4E09 U+56DB U+4E94 U+516D U+4E03 U+516B U+4E5D U+5341 \<backslash>d]+U+7AE0.*?(?=U+7B2C[...]+U+7AE0|$)\<close>,
    the lookahead repeating the marker;
  \<^item> \<open>Chapter_Word\<close> is \<^verbatim>\<open>Chapter\<backslash>s+\<backslash>d+.*?(?=Chapter\<backslash>s+\<backslash>d+|$)\<close>;
  \<^item> \<open>Chapter_Caps\<close> is \<^verbatim>\<open>CHAPTER\<backslash>s+\<backslash>d+.*?(?=CHAPTER\<backslash>s+\<backslash>d+|$)\<close>;
  \<^item> \<open>Numbered_Item\<close> is \<^verbatim>\<open>\<backslash>n\<backslash>d+\<backslash>..*?(?=\<backslash>n\<backslash>d+\<backslash>.|$)\<close>;
  \<^item> \<open>Heading_Line\<close> is \<^verbatim>\<open>\<backslash>n[A-Z][^.]*\<backslash>n.*?(?=\<backslash>n[A-Z][^.]*\<backslash>n|$)\<close>.

  Matching itself is the standard library's: \<open>findall pattern text\<close> stands for
  \<^verbatim>\<open>re.findall(pattern, text, re.DOTALL | re.IGNORECASE)\<close>, the matches in document order.
\<close>

datatype chapter_pattern = Zh_Chapter | Chapter_Word | Chapter_Caps | Numbered_Item | Heading_Line

type_synonym findall = "chapter_pattern \<Rightarrow> string \<Rightarrow> string list"

definition chapter_patterns :: "chapter_pattern list" where
  "chapter_patterns = [Zh_Chapter, Chapter_Word, Chapter_Caps, Numbered_Item, Heading_Line]"

text \<open>The chapters built from the matches of the winning pattern: \<^verbatim>\<open>enumerate(matches)\<close>.\<close>

definition chapters_of_matches :: "string list \<Rightarrow> chapter_dict list" where
  "chapters_of_matches matches =
     map (\<lambda>(i, match).
            \<lparr>chapter_number = int i + 1,
             title = extract_chapter_title match,
             content = strip match\<rparr>)
         (enumerate 0 matches)"

text \<open>The loop over the patterns, left at the first one with more than one match.\<close>

fun try_patterns :: "findall \<Rightarrow> chapter_pattern list \<Rightarrow> string \<Rightarrow> chapter_dict list" where
  "try_patterns findall [] text = []"
| "try_patterns findall (pattern # rest) text =
     (let matches = findall pattern text in
      if matches \<noteq> [] \<and> length matches > 1 then chapters_of_matches matches
      else try_patterns findall rest text)"

definition split_into_chapters :: "findall \<Rightarrow> string \<Rightarrow> chapter_dict list" where
  "split_into_chapters findall text =
     (let chapters = try_patterns findall chapter_patterns text in
      if chapters = []
      then [\<lparr>chapter_number = 1, title = ''Complete Document'', content = strip text\<rparr>]
      else chapters)"

subsection \<open>\<^verbatim>\<open>_split_by_chunks\<close> and \<^verbatim>\<open>extract_chapters\<close>\<close>

text \<open>
  \<open>split_text\<close> stands for \<^verbatim>\<open>self.text_splitter.split_text\<close>, the
  \<^verbatim>\<open>RecursiveCharacterTextSplitter\<close> of the constructor (chunk size 4000, overlap 200).
\<close>

definition split_by_chunks :: "(string \<Rightarrow> string list) \<Rightarrow> string \<Rightarrow> chapter_dict list" where
  "split_by_chunks split_text text =
     map (\<lambda>(i, chunk).
            \<lparr>chapter_number = int i + 1,
             title = ''Section '' @ str_nat (i + 1),
             content = strip chunk\<rparr>)
         (enumerate 0 (split_text text))"

text \<open>Lines 47 to 55 of \<^verbatim>\<open>extract_chapters\<close>: what becomes of the joined page text.\<close>

definition segment_text :: "findall \<Rightarrow> (string \<Rightarrow> string list) \<Rightarrow> string \<Rightarrow> chapter_dict list" where
  "segment_text findall split_text full_text =
     (let chapters = split_into_chapters findall full_text in
      if length chapters \<le> 1 then split_by_chunks split_text full_text else chapters)"

subsection \<open>Sample runs of the library calls\<close>

text \<open>
  What \<^verbatim>\<open>re.findall\<close> returns for the five patterns on two sample texts (and on texts
  that hold no marker at all: nothing). On the first text, with the items 7 and 9, only the
  numbered-item pattern has more than one match (the chapter patterns match once, from the
  marker to the end); on the second no pattern has.
\<close>

definition numbered_text :: string where
  "numbered_text = ''chapter 1 x'' @ [CHR 0x0A] @ ''7. a'' @ [CHR 0x0A] @ ''9. b''"

definition sample_findall :: findall where
  "sample_findall pattern text =
     (if text = numbered_text then
        (case pattern of
           Zh_Chapter \<Rightarrow> []
         | Chapter_Word \<Rightarrow> [numbered_text]
         | Chapter_Caps \<Rightarrow> [numbered_text]
         | Numbered_Item \<Rightarrow> [[CHR 0x0A] @ ''7. a'', [CHR 0x0A] @ ''9. b'']
         | Heading_Line \<Rightarrow> [])
      else if text = ''Chapter 1 only'' then
        (case pattern of
           Chapter_Word \<Rightarrow> [''Chapter 1 only'']
         | Chapter_Caps \<Rightarrow> [''Chapter 1 only'']
         | _ \<Rightarrow> [])
      else [])"

text \<open>
  What the text splitter returns for a text shorter than its chunk size: the stripped text as
  the only chunk, and no chunk at all when nothing is left after stripping (an empty document is
  dropped).
\<close>

definition short_text_chunks :: "string \<Rightarrow> string list" where
  "short_text_chunks text = (if strip text = [] then [] else [strip text])"

text \<open>
  What it returns for a text of 4001 to 7800 characters without any separator: two windows of
  at most 4000 characters, the second starting 200 characters before the end of the first.
\<close>

definition two_window_chunks :: "string \<Rightarrow> string list" where
  "two_window_chunks text = [take 4000 text, drop 3800 text]"

section \<open>JSON objects, exceptions and the effects of a call\<close>

text \<open>
  A parsed JSON value. An object is an association list: Python dictionaries keep the order of
  insertion, and \<^const>\<open>AList.update\<close> is item assignment (an existing key keeps its place, a new
  key goes last). A number with a fraction or an exponent is kept as its text.
\<close>

datatype json =
  JNull
| JBool bool
| JNumber int
| JFloat string
| JString string
| JArray "json list"
| JObject "(string \<times> json) list"

text \<open>An exception is its class and its message; \<^verbatim>\<open>str(e)\<close> is the message.\<close>

datatype exc_class = Exception | NameError | TypeError | ValueError | LangChainException

datatype exc = Exc exc_class string

fun exc_str :: "exc \<Rightarrow> string" where
  "exc_str (Exc cls msg) = msg"

fun is_langchain_exception :: "exc \<Rightarrow> bool" where
  "is_langchain_exception (Exc cls msg) = (cls = LangChainException)"

datatype level = INFO | ERROR

text \<open>A request to the model is the list of its messages, each a role and a text.\<close>

type_synonym request = "(string \<times> string) list"

text \<open>
  Everything a call can change: the objects on the heap (the result dictionaries and the
  template are referred to by address), the log records written so far, and the requests sent
  to the model so far.
\<close>

record world =
  heap :: "nat \<Rightarrow> json"
  next_ref :: nat
  logged :: "(level \<times> string) list"
  requests :: "request list"

definition log_info :: "string \<Rightarrow> world \<Rightarrow> world" where
  "log_info msg w = w\<lparr>logged := logged w @ [(INFO, msg)]\<rparr>"

definition log_error :: "string \<Rightarrow> world \<Rightarrow> world" where
  "log_error msg w = w\<lparr>logged := logged w @ [(ERROR, msg)]\<rparr>"

text \<open>A new object gets the next free address.\<close>

definition alloc :: "json \<Rightarrow> world \<Rightarrow> nat \<times> world" where
  "alloc v w = (next_ref w, w\<lparr>heap := (heap w)(next_ref w := v), next_ref := Suc (next_ref w)\<rparr>)"

text \<open>\<^verbatim>\<open>obj[key] = value\<close> with a string key: only a dictionary takes it.\<close>

definition setitem :: "nat \<Rightarrow> string \<Rightarrow> json \<Rightarrow> world \<Rightarrow> exc + world" where
  "setitem r key v w =
     (case heap w r of
        JObject items \<Rightarrow> Inr (w\<lparr>heap := (heap w)(r := JObject (AList.update key v items))\<rparr>)
      | JArray _ \<Rightarrow> Inl (Exc TypeError ''list indices must be integers or slices, not str'')
      | JString _ \<Rightarrow> Inl (Exc TypeError ([CHR 0x27] @ ''str'' @ [CHR 0x27] @ '' object does not support item assignment''))
      | JNumber _ \<Rightarrow> Inl (Exc TypeError ([CHR 0x27] @ ''int'' @ [CHR 0x27] @ '' object does not support item assignment''))
      | JFloat _ \<Rightarrow> Inl (Exc TypeError ([CHR 0x27] @ ''float'' @ [CHR 0x27] @ '' object does not support item assignment''))
      | JBool _ \<Rightarrow> Inl (Exc TypeError ([CHR 0x27] @ ''bool'' @ [CHR 0x27] @ '' object does not support item assignment''))
      | JNull \<Rightarrow> Inl (Exc TypeError ([CHR 0x27] @ ''NoneType'' @ [CHR 0x27] @ '' object does not support item assignment'')))"

text \<open>\<^verbatim>\<open>sep.join(parts)\<close>.\<close>

fun join :: "string \<Rightarrow> string list \<Rightarrow> string" where
  "join sep [] = []"
| "join sep [part] = part"
| "join sep (part # rest) = part @ sep @ join sep rest"

section \<open>\<^verbatim>\<open>extract_chapters\<close>, from the file to the chapters\<close>

text \<open>
  \<open>load\<close> stands for \<^verbatim>\<open>PyPDFLoader(pdf_path).load()\<close>: the text of each page, or a failure.
  The page texts are joined with line feeds and segmented; a failure is logged and raised again.
\<close>

definition extract_chapters ::
    "(string \<Rightarrow> exc + string list) \<Rightarrow> findall \<Rightarrow> (string \<Rightarrow> string list) \<Rightarrow> string \<Rightarrow> world
      \<Rightarrow> (exc + chapter_dict list) \<times> world" where
  "extract_chapters load findall split_text pdf_path w =
     (let w1 = log_info (''Starting PDF extraction from: '' @ pdf_path) w in
      case load pdf_path of
        Inl e \<Rightarrow> (Inl e, log_error (''Error extracting PDF chapters: '' @ exc_str e) w1)
      | Inr pages \<Rightarrow>
         (let w2 = log_info (''Loaded '' @ str_nat (length pages) @ '' pages from PDF'') w1;
              chapters = segment_text findall split_text (join [CHR 0x0A] pages)
          in (Inr chapters,
              log_info (''Successfully extracted '' @ str_nat (length chapters) @ '' chapters'') w2)))"

section \<open>The model calls (services/langchain_service.py)\<close>

text \<open>
  The names the module binds at its top level: its imports, its logger and its class. A name
  that is neither here nor a builtin raises \<^verbatim>\<open>NameError\<close> when the running code reaches it.
\<close>

definition module_names :: "string list" where
  "module_names =
     [''logging'', ''os'', ''Dict'', ''Any'', ''List'', ''ChatOpenAI'', ''ChatPromptTemplate'',
      ''JsonOutputParser'', ''LangChainException'', ''load_dotenv'', ''logger'',
      ''LangChainService'']"

definition load_name :: "string list \<Rightarrow> string \<Rightarrow> exc + unit" where
  "load_name names name =
     (if name \<in> set names then Inr ()
      else Inl (Exc NameError (''name '' @ [CHR 0x27] @ name @ [CHR 0x27] @ '' is not defined'')))"

subsection \<open>The prompts\<close>

definition knowledge_system_message :: string where
  "knowledge_system_message = join [CHR 0x0A]
     [''You are an expert educational content analyzer. Your task is to extract knowledge points from course material and structure them according to a provided JSON template.'',
      '''',
      ''CRITICAL INSTRUCTIONS:'',
      ''1. Extract ONLY knowledge points that are actually present in the provided text'',
      ''2. Follow the EXACT structure of the provided JSON template'',
      ''3. Fill in the template with relevant content from the text'',
      ''4. If a section in the template has no corresponding content in the text, use null or empty values'',
      ''5. Maintain the original JSON structure and field names'',
      ''6. Ensure all output is valid JSON format'',
      '''',
      ''QUALITY REQUIREMENTS:'',
      ''- Extract key concepts, definitions, examples, and important details'',
      ''- Summarize complex topics clearly and concisely'',
      ''- Preserve important technical terms and terminology'',
      ''- Maintain logical connections between related concepts'']"

definition knowledge_human_message :: "string \<Rightarrow> string \<Rightarrow> string" where
  "knowledge_human_message chapter_content json_structure = join [CHR 0x0A]
     [''Please analyze the following course chapter and extract knowledge points according to the provided JSON structure.'',
      '''',
      ''CHAPTER CONTENT:'',
      chapter_content,
      '''',
      ''JSON STRUCTURE TEMPLATE:'',
      json_structure,
      '''',
      ''Extract the knowledge points from the chapter content and fill the JSON template accordingly. Return ONLY the filled JSON structure, no additional text or explanations.'']"

definition knowledge_prompt :: "string \<Rightarrow> string \<Rightarrow> request" where
  "knowledge_prompt chapter_content json_structure =
     [(''system'', knowledge_system_message),
      (''human'', knowledge_human_message chapter_content json_structure)]"

definition merge_system_message :: string where
  "merge_system_message = join [CHR 0x0A]
     [''You are an expert at consolidating educational content. Your task is to merge multiple knowledge point extractions into a single, comprehensive JSON structure.'',
      '''',
      ''INSTRUCTIONS:'',
      ''1. Combine all knowledge points from different chapters'',
      ''2. Eliminate duplicates while preserving unique information'',
      ''3. Organize content logically within the target structure'',
      ''4. Ensure comprehensive coverage of all topics'',
      ''5. Maintain the exact JSON structure provided'',
      ''6. Return ONLY the merged JSON, no additional text'']"

definition merge_human_message :: "string \<Rightarrow> string \<Rightarrow> string" where
  "merge_human_message extracted_points target_structure = join [CHR 0x0A]
     [''Please merge the following extracted knowledge points into the target JSON structure:'',
      '''',
      ''EXTRACTED KNOWLEDGE POINTS:'',
      extracted_points,
      '''',
      ''TARGET JSON STRUCTURE:'',
      target_structure,
      '''',
      ''Merge all knowledge points into a comprehensive, well-organized JSON structure.'']"

definition merge_prompt :: "string \<Rightarrow> string \<Rightarrow> request" where
  "merge_prompt extracted_points target_structure =
     [(''system'', merge_system_message),
      (''human'', merge_human_message extracted_points target_structure)]"

subsection \<open>The chain \<^verbatim>\<open>prompt | llm | json_parser\<close>\<close>

text \<open>
  The model and the parser are the libraries': \<open>llm\<close> answers the latest request, given all
  requests sent so far, with a text or a transport failure; \<open>parse\<close> stands for
  \<^verbatim>\<open>JsonOutputParser\<close>, which builds a new object or fails. \<open>dumps\<close> stands for
  \<^verbatim>\<open>json.dumps\<close> with \<^verbatim>\<open>indent=2, ensure_ascii=False\<close>.
\<close>

type_synonym llm = "request list \<Rightarrow> exc + string"

type_synonym parser = "string \<Rightarrow> exc + json"

definition ainvoke :: "llm \<Rightarrow> parser \<Rightarrow> request \<Rightarrow> world \<Rightarrow> (exc + nat) \<times> world" where
  "ainvoke llm parse req w =
     (let w1 = w\<lparr>requests := requests w @ [req]\<rparr> in
      case llm (requests w1) of
        Inl e \<Rightarrow> (Inl e, w1)
      | Inr answer \<Rightarrow>
         (case parse answer of
            Inl e \<Rightarrow> (Inl e, w1)
          | Inr v \<Rightarrow> (let (r, w2) = alloc v w1 in (Inr r, w2))))"

subsection \<open>\<^verbatim>\<open>extract_knowledge_from_chapter\<close>\<close>

text \<open>
  The method, for a module that binds the names \<open>names\<close>. The inputs of the chain are built
  first; building them reads the name \<^verbatim>\<open>json\<close>. The first handler is for a
  \<^verbatim>\<open>LangChainException\<close>, the second for every other exception; both log and raise again.
\<close>

definition extract_knowledge_from_chapter_in ::
    "string list \<Rightarrow> (json \<Rightarrow> string) \<Rightarrow> llm \<Rightarrow> parser \<Rightarrow> string \<Rightarrow> nat \<Rightarrow> world
      \<Rightarrow> (exc + nat) \<times> world" where
  "extract_knowledge_from_chapter_in names dumps llm parse chapter_content json_structure w =
     (let w1 = log_info ''Starting knowledge extraction with LangChain'' w;
          (r, w2) =
            (case load_name names ''json'' of
               Inl e \<Rightarrow> (Inl e, w1)
             | Inr _ \<Rightarrow>
                 ainvoke llm parse
                   (knowledge_prompt chapter_content (dumps (heap w1 json_structure))) w1)
      in case r of
           Inl e \<Rightarrow>
             (Inl e,
              log_error ((if is_langchain_exception e then ''LangChain processing error: ''
                          else ''Unexpected error in knowledge extraction: '') @ exc_str e) w2)
         | Inr result \<Rightarrow> (Inr result, log_info ''Successfully extracted knowledge points'' w2))"

text \<open>The method of the repository: the module binds \<^const>\<open>module_names\<close>.\<close>

definition extract_knowledge_from_chapter ::
    "(json \<Rightarrow> string) \<Rightarrow> llm \<Rightarrow> parser \<Rightarrow> string \<Rightarrow> nat \<Rightarrow> world \<Rightarrow> (exc + nat) \<times> world" where
  "extract_knowledge_from_chapter = extract_knowledge_from_chapter_in module_names"

subsection \<open>\<^verbatim>\<open>merge_knowledge_points\<close>\<close>

text \<open>
  The results are a list of addresses; serializing them reads the objects on the heap. The
  single handler logs and raises again.
\<close>

definition merge_knowledge_points_in ::
    "string list \<Rightarrow> (json \<Rightarrow> string) \<Rightarrow> llm \<Rightarrow> parser \<Rightarrow> nat list \<Rightarrow> nat \<Rightarrow> world
      \<Rightarrow> (exc + nat) \<times> world" where
  "merge_knowledge_points_in names dumps llm parse extracted_points target_structure w =
     (let w1 = log_info ''Starting knowledge points merge'' w;
          (r, w2) =
            (case load_name names ''json'' of
               Inl e \<Rightarrow> (Inl e, w1)
             | Inr _ \<Rightarrow>
                 ainvoke llm parse
                   (merge_prompt (dumps (JArray (map (heap w1) extracted_points)))
                                 (dumps (heap w1 target_structure))) w1)
      in case r of
           Inl e \<Rightarrow> (Inl e, log_error (''Error merging knowledge points: '' @ exc_str e) w2)
         | Inr result \<Rightarrow> (Inr result, log_info ''Successfully merged knowledge points'' w2))"

definition merge_knowledge_points ::
    "(json \<Rightarrow> string) \<Rightarrow> llm \<Rightarrow> parser \<Rightarrow> nat list \<Rightarrow> nat \<Rightarrow> world \<Rightarrow> (exc + nat) \<times> world" where
  "merge_knowledge_points = merge_knowledge_points_in module_names"

section \<open>The orchestrator (services/knowledge_extractor.py)\<close>

text \<open>
  The service the orchestrator is constructed with: its extraction method and its merge method,
  each taking the world and returning its outcome and the world it leaves.
\<close>

type_synonym extractor = "string \<Rightarrow> nat \<Rightarrow> world \<Rightarrow> (exc + nat) \<times> world"

type_synonym merger = "nat list \<Rightarrow> nat \<Rightarrow> world \<Rightarrow> (exc + nat) \<times> world"

text \<open>The value the constructor gives \<^verbatim>\<open>max_concurrent_requests\<close>.\<close>

definition default_max_concurrent_requests :: int where
  "default_max_concurrent_requests = 3"

subsection \<open>\<^verbatim>\<open>_process_chapter_with_semaphore\<close>\<close>

text \<open>The provenance stored under \<^verbatim>\<open>_chapter_info\<close>.\<close>

definition chapter_info :: "chapter_dict \<Rightarrow> json" where
  "chapter_info c =
     JObject [(''chapter_number'', JNumber (chapter_number c)), (''title'', JString (title c))]"

text \<open>
  The body under \<^verbatim>\<open>async with semaphore\<close> runs in two steps. Up to the \<^verbatim>\<open>await\<close> it logs
  the start; when the extraction call has returned or raised, it tags the result and logs the
  end, or logs the failure and raises again.
\<close>

definition start_chapter :: "chapter_dict \<Rightarrow> world \<Rightarrow> world" where
  "start_chapter c w = log_info (''Processing chapter: '' @ title c) w"

definition finish_chapter :: "extractor \<Rightarrow> chapter_dict \<Rightarrow> nat \<Rightarrow> world \<Rightarrow> (exc + nat) \<times> world" where
  "finish_chapter extract c knowledge_structure w =
     (let (r, w1) = extract (content c) knowledge_structure w;
          (r', w2) =
            (case r of
               Inl e \<Rightarrow> (Inl e, w1)
             | Inr result \<Rightarrow>
                 (case setitem result ''_chapter_info'' (chapter_info c) w1 of
                    Inl e \<Rightarrow> (Inl e, w1)
                  | Inr w' \<Rightarrow>
                      (Inr result, log_info (''Completed processing chapter: '' @ title c) w')))
      in case r' of
           Inl e \<Rightarrow>
             (Inl e, log_error (''Error processing chapter '' @ title c @ '': '' @ exc_str e) w2)
         | Inr result \<Rightarrow> (Inr result, w2))"

subsection \<open>The tasks under the semaphore\<close>

text \<open>
  \<^verbatim>\<open>asyncio.gather\<close> runs one task per chapter. A task waits for a permit of the semaphore,
  holds it while its extraction call is in flight, and gives it back when the body is left,
  by return or by exception. The event loop interleaves the tasks: a run is a list of events,
  each the step of one task. A semaphore with no permit left admits no task.
\<close>

datatype task_state = Pending | In_Flight | Done "exc + nat"

record gather_state =
  permits :: nat
  tasks :: "(chapter_dict \<times> task_state) list"
  gworld :: world

datatype event = Acquire nat | Complete nat

fun step :: "extractor \<Rightarrow> nat \<Rightarrow> event \<Rightarrow> gather_state \<Rightarrow> gather_state option" where
  "step extract knowledge_structure (Acquire i) s =
     (if i < length (tasks s) \<and> snd (tasks s ! i) = Pending \<and> 0 < permits s
      then Some (s\<lparr>permits := permits s - 1,
                   tasks := (tasks s)[i := (fst (tasks s ! i), In_Flight)],
                   gworld := start_chapter (fst (tasks s ! i)) (gworld s)\<rparr>)
      else None)"
| "step extract knowledge_structure (Complete i) s =
     (if i < length (tasks s) \<and> snd (tasks s ! i) = In_Flight
      then (let (r, w) = finish_chapter extract (fst (tasks s ! i)) knowledge_structure (gworld s)
            in Some (s\<lparr>permits := permits s + 1,
                         tasks := (tasks s)[i := (fst (tasks s ! i), Done r)],
                         gworld := w\<rparr>))
      else None)"

fun run_events :: "extractor \<Rightarrow> nat \<Rightarrow> event list \<Rightarrow> gather_state \<Rightarrow> gather_state option" where
  "run_events extract knowledge_structure [] s = Some s"
| "run_events extract knowledge_structure (ev # evs) s =
     (case step extract knowledge_structure ev s of
        None \<Rightarrow> None
      | Some s' \<Rightarrow> run_events extract knowledge_structure evs s')"

definition initial_state :: "nat \<Rightarrow> chapter_dict list \<Rightarrow> world \<Rightarrow> gather_state" where
  "initial_state k chapters w =
     \<lparr>permits = k, tasks = map (\<lambda>c. (c, Pending)) chapters, gworld = w\<rparr>"

fun is_done :: "task_state \<Rightarrow> bool" where
  "is_done (Done r) = True"
| "is_done _ = False"

definition all_done :: "gather_state \<Rightarrow> bool" where
  "all_done s = list_all (\<lambda>t. is_done (snd t)) (tasks s)"

definition in_flight :: "gather_state \<Rightarrow> nat" where
  "in_flight s = length (filter (\<lambda>t. snd t = In_Flight) (tasks s))"

text \<open>What \<^verbatim>\<open>gather\<close> returns with \<^verbatim>\<open>return_exceptions=True\<close>: the outcomes, in task order.\<close>

fun outcomes :: "(chapter_dict \<times> task_state) list \<Rightarrow> (exc + nat) list" where
  "outcomes [] = []"
| "outcomes ((c, Done r) # ts) = r # outcomes ts"
| "outcomes (t # ts) = outcomes ts"

subsection \<open>\<^verbatim>\<open>extract_knowledge_points\<close>\<close>

text \<open>The loop that keeps the successful results and logs the failures.\<close>

fun filter_results :: "nat \<Rightarrow> (exc + nat) list \<Rightarrow> nat list \<Rightarrow> world \<Rightarrow> nat list \<times> world" where
  "filter_results i [] successful_results w = (successful_results, w)"
| "filter_results i (Inl e # rest) successful_results w =
     filter_results (i + 1) rest successful_results
       (log_error (''Failed to process chapter '' @ str_nat (i + 1) @ '': '' @ exc_str e) w)"
| "filter_results i (Inr result # rest) successful_results w =
     filter_results (i + 1) rest (successful_results @ [result]) w"

definition pipeline_failure :: exc where
  "pipeline_failure = Exc Exception ''Failed to process any chapters successfully''"

text \<open>The handler around the whole method: it logs and raises again.\<close>

fun reraise_logged :: "(exc + nat) \<times> world \<Rightarrow> (exc + nat) \<times> world" where
  "reraise_logged (Inl e, w) =
     (Inl e, log_error (''Error in knowledge extraction process: '' @ exc_str e) w)"
| "reraise_logged (Inr result, w) = (Inr result, w)"

text \<open>From the gathered outcomes to the end of the method.\<close>

definition merge_successful :: "merger \<Rightarrow> (exc + nat) list \<Rightarrow> nat \<Rightarrow> world \<Rightarrow> (exc + nat) \<times> world" where
  "merge_successful merge chapter_results knowledge_structure w =
     (let (successful_results, w1) = filter_results 0 chapter_results [] w in
      if successful_results = [] then (Inl pipeline_failure, w1)
      else merge successful_results knowledge_structure
             (log_info (''Successfully processed '' @ str_nat (length successful_results)
                        @ '' chapters'') w1))"

text \<open>
  The method under the schedule \<open>events\<close> of its tasks. The result is \<open>None\<close> when the events
  are not a run of the tasks to the end: \<^verbatim>\<open>gather\<close> returns when every task is done.
\<close>

definition extract_knowledge_points ::
    "extractor \<Rightarrow> merger \<Rightarrow> int \<Rightarrow> chapter_dict list \<Rightarrow> nat \<Rightarrow> event list \<Rightarrow> world
      \<Rightarrow> ((exc + nat) \<times> world) option" where
  "extract_knowledge_points extract merge max_concurrent_requests chapters knowledge_structure
      events w =
     (let w0 = log_info (''Starting knowledge extraction for '' @ str_nat (length chapters)
                         @ '' chapters'') w in
      if max_concurrent_requests < 0
      then Some (reraise_logged (Inl (Exc ValueError ''Semaphore initial value must be >= 0''), w0))
      else
        (case run_events extract knowledge_structure events
                (initial_state (nat max_concurrent_requests) chapters w0) of
           None \<Rightarrow> None
         | Some s \<Rightarrow>
             if all_done s
             then Some (reraise_logged
                          (merge_successful merge (outcomes (tasks s)) knowledge_structure (gworld s)))
             else None))"

section \<open>A sample run\<close>

text \<open>
  The scenario of the specification: three chapters and the template \<^verbatim>\<open>{"topics": []}\<close>; a
  fake extractor that returns \<^verbatim>\<open>{"topics": ["X"]}\<close> for the first two chapters and raises for
  the third; a fake merger that concatenates the \<^verbatim>\<open>topics\<close> arrays of its inputs.
\<close>

definition sample_world :: world where
  "sample_world =
     snd (alloc (JObject [(''topics'', JArray [])])
            \<lparr>heap = (\<lambda>a. JNull), next_ref = 0, logged = [], requests = []\<rparr>)"

definition sample_chapters :: "chapter_dict list" where
  "sample_chapters =
     [\<lparr>chapter_number = 1, title = ''Chapter 1'', content = ''first''\<rparr>,
      \<lparr>chapter_number = 2, title = ''Chapter 2'', content = ''second''\<rparr>,
      \<lparr>chapter_number = 3, title = ''Chapter 3'', content = ''third''\<rparr>]"

definition fake_extract :: extractor where
  "fake_extract chapter_content knowledge_structure w =
     (if chapter_content = ''third'' then (Inl (Exc Exception ''no answer''), w)
      else (let (r, w') = alloc (JObject [(''topics'', JArray [JString ''X''])]) w
            in (Inr r, w')))"

definition topics_of :: "json \<Rightarrow> json list" where
  "topics_of v =
     (case v of
        JObject items \<Rightarrow> (case map_of items ''topics'' of Some (JArray xs) \<Rightarrow> xs | _ \<Rightarrow> [])
      | _ \<Rightarrow> [])"

definition fake_merge :: merger where
  "fake_merge extracted_points target_structure w =
     (let (r, w') =
            alloc (JObject [(''topics'',
                             JArray (concat (map (\<lambda>p. topics_of (heap w p)) extracted_points)))]) w
      in (Inr r, w'))"

text \<open>All three calls are admitted; the second chapter completes first, the first one last.\<close>

definition sample_schedule :: "event list" where
  "sample_schedule = [Acquire 0, Acquire 1, Acquire 2, Complete 1, Complete 2, Complete 0]"

text \<open>With two permits the third chapter is admitted only after a call has completed.\<close>

definition limited_schedule :: "event list" where
  "limited_schedule = [Acquire 0, Acquire 1, Complete 1, Acquire 2, Complete 0, Complete 2]"

text \<open>A world that holds the template and two results, for the merge alone.\<close>

definition sample_results_world :: world where
  "sample_results_world =
     snd (alloc (JObject [(''topics'', JArray [JString ''Y''])])
            (snd (alloc (JObject [(''topics'', JArray [JString ''X''])]) sample_world)))"

text \<open>A serializer for the sample runs: compact, without escapes.\<close>

fun sample_dumps :: "json \<Rightarrow> string" where
  "sample_dumps JNull = ''null''"
| "sample_dumps (JBool b) = (if b then ''true'' else ''false'')"
| "sample_dumps (JNumber n) = (if n < 0 then ''-'' else '''') @ str_nat (nat \<bar>n\<bar>)"
| "sample_dumps (JFloat x) = x"
| "sample_dumps (JString s) = [CHR 0x22] @ s @ [CHR 0x22]"
| "sample_dumps (JArray xs) = ''['' @ join '', '' (map sample_dumps xs) @ '']''"
| "sample_dumps (JObject items) =
     ''{'' @ join '', '' (map (\<lambda>item. [CHR 0x22] @ fst item @ [CHR 0x22] @ '': ''
                                     @ sample_dumps (snd item)) items) @ ''}''"

section \<open>Properties of the title rule\<close>

lemma strip_Nil_iff: "strip s = [] \<longleftrightarrow> (\<forall>c\<in>set s. isspace c)"
proof -
  have "dropWhile isspace s = [] \<longleftrightarrow> (\<forall>c\<in>set s. isspace c)"
    by (simp add: dropWhile_eq_Nil_conv)
  moreover have "dropWhile isspace (rev (dropWhile isspace s)) = [] \<longleftrightarrow> dropWhile isspace s = []"
  proof
    assume a: "dropWhile isspace (rev (dropWhile isspace s)) = []"
    show "dropWhile isspace s = []"
    proof (rule ccontr)
      assume ne: "dropWhile isspace s \<noteq> []"
      then have "\<not> isspace (hd (dropWhile isspace s))" by (rule hd_dropWhile)
      moreover have "hd (dropWhile isspace s) \<in> set (rev (dropWhile isspace s))"
        using ne by simp
      ultimately show False using a by (auto simp: dropWhile_eq_Nil_conv)
    qed
  qed (auto dest: set_dropWhileD)
  ultimately show ?thesis by (simp add: strip_def)
qed

lemma strip_all_space: 
  assumes "\<forall>c\<in>set (strip t). isspace c" shows "strip t = []"
proof (rule ccontr)
  assume ne: "strip t \<noteq> []"
  let ?d = "dropWhile isspace (rev (dropWhile isspace t))"
  from ne have d: "?d \<noteq> []" by (simp add: strip_def)
  then have "\<not> isspace (hd ?d)" by (rule hd_dropWhile)
  moreover have "hd ?d \<in> set (strip t)" using d by (simp add: strip_def)
  ultimately show False using assms by blast
qed

lemma clear_title_find:
  "clear_title ls = find (\<lambda>l. l \<noteq> [] \<and> length l < 100) (map strip ls)"
  by (induction ls) (simp_all add: Let_def)

lemma fallback_title_find:
  "fallback_title ls =
     map_option (\<lambda>l. if length l > 100 then take 100 l @ ''...'' else l)
       (find (\<lambda>l. l \<noteq> []) (map strip ls))"
  by (induction ls) (simp_all add: Let_def)

lemma isspace_newline: "isspace (CHR 0x0A)"
  by (simp add: isspace_def)

lemma set_split_newline:
  "(\<forall>l\<in>set (split_newline s). \<forall>c\<in>set l. isspace c) \<longleftrightarrow> (\<forall>c\<in>set s. isspace c)"
  by (induction s) (auto simp: isspace_newline split: list.splits)

lemma no_line_iff:
  "find (\<lambda>l. l \<noteq> []) (map strip (split_newline (strip t))) = None \<longleftrightarrow> (\<forall>c\<in>set t. isspace c)"
proof -
  have "find (\<lambda>l. l \<noteq> []) (map strip (split_newline (strip t))) = None
        \<longleftrightarrow> (\<forall>l\<in>set (split_newline (strip t)). strip l = [])"
    by (auto simp: find_None_iff)
  also have "\<dots> \<longleftrightarrow> (\<forall>c\<in>set (strip t). isspace c)"
    by (simp add: strip_Nil_iff set_split_newline)
  also have "\<dots> \<longleftrightarrow> strip t = []"
    using strip_all_space [of t] by auto
  finally show ?thesis by (simp add: strip_Nil_iff)
qed


text \<open>
  Claim C8, as the code has it. The title is the first of the first three lines of the stripped
  chapter text (blank lines count among the three) that is, once stripped, non-empty and shorter
  than 100 characters. When none of them qualifies the title is the first non-empty stripped
  line, cut to 100 characters and followed by an ellipsis when it is longer than 100. The
  placeholder is the fallback only when no non-empty line exists, which is exactly when the
  chapter text is blank.
\<close>

theorem extract_chapter_title_rule:
  "extract_chapter_title t =
     (let ls = map strip (split_newline (strip t)) in
      case find (\<lambda>l. l \<noteq> [] \<and> length l < 100) (take 3 ls) of
        Some l \<Rightarrow> l
      | None \<Rightarrow>
         (case find (\<lambda>l. l \<noteq> []) ls of
            Some l \<Rightarrow> (if length l > 100 then take 100 l @ ''...'' else l)
          | None \<Rightarrow> ''Untitled Chapter''))
   \<and> ((find (\<lambda>l. l \<noteq> []) (map strip (split_newline (strip t))) = None)
        = (\<forall>c\<in>set t. isspace c))"
proof
  show "extract_chapter_title t =
     (let ls = map strip (split_newline (strip t)) in
      case find (\<lambda>l. l \<noteq> [] \<and> length l < 100) (take 3 ls) of
        Some l \<Rightarrow> l
      | None \<Rightarrow>
         (case find (\<lambda>l. l \<noteq> []) ls of
            Some l \<Rightarrow> (if length l > 100 then take 100 l @ ''...'' else l)
          | None \<Rightarrow> ''Untitled Chapter''))"
    by (simp add: extract_chapter_title_def clear_title_find fallback_title_find
        Let_def take_map split: option.splits)
qed (rule no_line_iff)

theorem extract_chapter_title_rule_witness:
  "extract_chapter_title ('' Chapter 1: Sets '' @ [CHR 0x0A] @ ''Body'') = ''Chapter 1: Sets''
   \<and> extract_chapter_title [CHR '' '', CHR 0x0A] = ''Untitled Chapter''
   \<and> list_all isspace [CHR '' '', CHR 0x0A]"
proof -
  have a: "map strip (split_newline (strip ('' Chapter 1: Sets '' @ [CHR 0x0A] @ ''Body'')))
             = [''Chapter 1: Sets'', ''Body'']"
    by code_simp
  have b: "\<forall>c\<in>set [CHR '' '', CHR 0x0A]. isspace c"
    by (simp add: isspace_def)
  have c: "take 3 (map strip (split_newline (strip [CHR '' '', CHR 0x0A]))) = [[]]"
    by code_simp
  have "extract_chapter_title ('' Chapter 1: Sets '' @ [CHR 0x0A] @ ''Body'') = ''Chapter 1: Sets''"
    using extract_chapter_title_rule [of "'' Chapter 1: Sets '' @ [CHR 0x0A] @ ''Body''"]
    by (simp only: a Let_def) simp
  moreover have "extract_chapter_title [CHR '' '', CHR 0x0A] = ''Untitled Chapter''"
    using extract_chapter_title_rule [of "[CHR '' '', CHR 0x0A]"] b
    by (simp only: c Let_def) simp
  ultimately show ?thesis
    using b by (simp add: list_all_iff)
qed

text \<open>
  The claim as worded scans the first three non-empty lines. A text whose first line has 100
  characters, followed by two blank lines and a short line, tells the two readings apart: the
  code never looks at the fourth line and returns the long first line.
\<close>

theorem extract_chapter_title_counterexample:
  "extract_chapter_title (replicate 100 CHR ''a'' @ [CHR 0x0A, CHR 0x0A, CHR 0x0A] @ ''T'')
     = replicate 100 CHR ''a''
   \<and> spec_chapter_title (replicate 100 CHR ''a'' @ [CHR 0x0A, CHR 0x0A, CHR 0x0A] @ ''T'') = ''T''"
proof
  show "extract_chapter_title (replicate 100 CHR ''a'' @ [CHR 0x0A, CHR 0x0A, CHR 0x0A] @ ''T'')
     = replicate 100 CHR ''a''"
    by code_simp
  show "spec_chapter_title (replicate 100 CHR ''a'' @ [CHR 0x0A, CHR 0x0A, CHR 0x0A] @ ''T'') = ''T''"
    by code_simp
qed

section \<open>Properties of the segmentation\<close>

lemma map_int_upt: "map (\<lambda>i. int i + 1) [0..<n] = [1..int n]"
proof (induction n)
  case 0
  show ?case by simp
next
  case (Suc n)
  have "[1..int (Suc n)] = [1..int n] @ [int n + 1]"
    using upto_rec2 [of 1 "int n + 1"] by (simp add: add.commute)
  with Suc show ?case by simp
qed

lemma map_fst_of_enumerate: "map (\<lambda>p. g (fst p)) (enumerate n xs) = map g [n..<n + length xs]"
proof -
  have "map g (map fst (enumerate n xs)) = map g [n..<n + length xs]"
    by simp
  from this [unfolded map_map comp_def] show ?thesis .
qed

lemma map_snd_of_enumerate: "map (\<lambda>p. f (snd p)) (enumerate n xs) = map f xs"
proof -
  have "map f (map snd (enumerate n xs)) = map f xs"
    by simp
  from this [unfolded map_map comp_def] show ?thesis .
qed

lemma numbers_of_enumerate:
  "map (\<lambda>(i, x). int i + 1) (enumerate 0 xs) = [1..int (length xs)]"
  using map_fst_of_enumerate [of "\<lambda>i. int i + 1" 0 xs]
  by (simp add: case_prod_unfold map_int_upt)

lemma chapter_number_chapters_of_matches:
  "map chapter_number (chapters_of_matches ms) = [1..int (length ms)]"
  using numbers_of_enumerate [of ms]
  by (simp add: chapters_of_matches_def case_prod_unfold comp_def)

lemma content_chapters_of_matches:
  "map content (chapters_of_matches ms) = map strip ms"
  using map_snd_of_enumerate [of strip 0 ms]
  by (simp add: chapters_of_matches_def case_prod_unfold comp_def)

lemma length_chapters_of_matches [simp]: "length (chapters_of_matches ms) = length ms"
  by (simp add: chapters_of_matches_def)

lemma chapter_number_split_by_chunks:
  "map chapter_number (split_by_chunks split_text t) = [1..int (length (split_text t))]"
  using numbers_of_enumerate [of "split_text t"]
  by (simp add: split_by_chunks_def case_prod_unfold comp_def)

lemma length_split_by_chunks [simp]: "length (split_by_chunks split_text t) = length (split_text t)"
  by (simp add: split_by_chunks_def)

lemma try_patterns_none:
  "\<forall>p\<in>set ps. length (findall p t) \<le> 1 \<Longrightarrow> try_patterns findall ps t = []"
  by (induction ps) (auto simp: Let_def)

lemma try_patterns_first:
  "\<forall>p\<in>set earlier. length (findall p t) \<le> 1 \<Longrightarrow> length (findall pattern t) > 1 \<Longrightarrow>
   try_patterns findall (earlier @ pattern # later) t = chapters_of_matches (findall pattern t)"
  by (induction earlier) (auto simp: Let_def)

lemma chapters_of_matches_Nil_iff [simp]: "chapters_of_matches ms = [] \<longleftrightarrow> ms = []"
  by (simp add: chapters_of_matches_def enumerate_eq_zip)

lemma try_patterns_numbers:
  "map chapter_number (try_patterns findall ps t) = [1..int (length (try_patterns findall ps t))]"
  by (induction ps) (auto simp: Let_def chapter_number_chapters_of_matches)

lemma try_patterns_length: "length (try_patterns findall ps t) \<noteq> Suc 0"
  by (induction ps) (auto simp: Let_def)

lemma try_patterns_Nil_iff:
  "try_patterns findall ps t = [] \<longleftrightarrow> (\<forall>p\<in>set ps. length (findall p t) \<le> 1)"
  by (induction ps) (auto simp: Let_def)

text \<open>
  Claim C5. The patterns are tried in the order of \<^const>\<open>chapter_patterns\<close>. When every pattern
  before \<open>pattern\<close> has at most one match and \<open>pattern\<close> has more than one, the chapters are
  built from the matches of \<open>pattern\<close> alone, in the order \<open>findall\<close> returns them; they are
  numbered 1 to N by position, whatever the marker text says. No later pattern is consulted: a
  matcher that differs from \<open>findall\<close> on later patterns only gives the same chapters.
\<close>

theorem first_pattern_with_matches_wins:
  assumes "chapter_patterns = earlier @ pattern # later"
    and "\<forall>p\<in>set earlier. length (findall p text) \<le> 1"
    and "length (findall pattern text) > 1"
  shows "split_into_chapters findall text = chapters_of_matches (findall pattern text)
       \<and> map chapter_number (split_into_chapters findall text) = [1..int (length (findall pattern text))]
       \<and> map content (split_into_chapters findall text) = map strip (findall pattern text)
       \<and> (\<forall>findall'. (\<forall>p\<in>set (earlier @ [pattern]). findall' p text = findall p text)
              \<longrightarrow> split_into_chapters findall' text = split_into_chapters findall text)"
proof -
  have won: "split_into_chapters f text = chapters_of_matches (f pattern text)"
    if "\<forall>p\<in>set earlier. length (f p text) \<le> 1" and "length (f pattern text) > 1" for f
  proof -
    have "try_patterns f chapter_patterns text = chapters_of_matches (f pattern text)"
      unfolding assms(1) using that by (rule try_patterns_first)
    moreover have "f pattern text \<noteq> []" using that(2) by auto
    ultimately show ?thesis by (simp add: split_into_chapters_def)
  qed
  have split: "split_into_chapters findall text = chapters_of_matches (findall pattern text)"
    using assms(2,3) by (rule won)
  have later_ignored: "\<forall>findall'. (\<forall>p\<in>set (earlier @ [pattern]). findall' p text = findall p text)
              \<longrightarrow> split_into_chapters findall' text = split_into_chapters findall text"
  proof (intro allI impI)
    fix findall' :: findall
    assume same: "\<forall>p\<in>set (earlier @ [pattern]). findall' p text = findall p text"
    have few: "\<forall>p\<in>set earlier. length (findall' p text) \<le> 1"
      using same assms(2) by simp
    have eq: "findall' pattern text = findall pattern text"
      using same by simp
    have many: "length (findall' pattern text) > 1"
      using assms(3) by (simp only: eq)
    have "split_into_chapters findall' text = chapters_of_matches (findall' pattern text)"
      using few many by (rule won)
    then show "split_into_chapters findall' text = split_into_chapters findall text"
      by (simp only: eq split)
  qed
  have "map chapter_number (split_into_chapters findall text) = [1..int (length (findall pattern text))]"
    by (simp only: split chapter_number_chapters_of_matches)
  moreover have "map content (split_into_chapters findall text) = map strip (findall pattern text)"
    by (simp only: split content_chapters_of_matches)
  ultimately show ?thesis
    using split later_ignored by blast
qed

theorem first_pattern_with_matches_wins_witness:
  "chapter_patterns = [Zh_Chapter, Chapter_Word, Chapter_Caps] @ Numbered_Item # [Heading_Line]
   \<and> map (\<lambda>p. length (sample_findall p numbered_text)) [Zh_Chapter, Chapter_Word, Chapter_Caps] = [0, 1, 1]
   \<and> length (sample_findall Numbered_Item numbered_text) = 2
   \<and> split_into_chapters sample_findall numbered_text =
       [\<lparr>chapter_number = 1, title = ''7. a'', content = ''7. a''\<rparr>,
        \<lparr>chapter_number = 2, title = ''9. b'', content = ''9. b''\<rparr>]
   \<and> map chapter_number (split_into_chapters sample_findall numbered_text) = [1, 2]
   \<and> split_into_chapters (\<lambda>p t. if p = Heading_Line then [''x'', ''y'', ''z''] else sample_findall p t)
        numbered_text = split_into_chapters sample_findall numbered_text"
proof -
  have pats: "chapter_patterns = [Zh_Chapter, Chapter_Word, Chapter_Caps] @ Numbered_Item # [Heading_Line]"
    by (simp add: chapter_patterns_def)
  have few: "\<forall>p\<in>set [Zh_Chapter, Chapter_Word, Chapter_Caps]. length (sample_findall p numbered_text) \<le> 1"
    by (simp add: sample_findall_def)
  have many: "length (sample_findall Numbered_Item numbered_text) > 1"
    by (simp add: sample_findall_def)
  have chs: "chapters_of_matches (sample_findall Numbered_Item numbered_text) =
       [\<lparr>chapter_number = 1, title = ''7. a'', content = ''7. a''\<rparr>,
        \<lparr>chapter_number = 2, title = ''9. b'', content = ''9. b''\<rparr>]"
    by code_simp
  note won = first_pattern_with_matches_wins
      [of "[Zh_Chapter, Chapter_Word, Chapter_Caps]" Numbered_Item "[Heading_Line]"
          sample_findall numbered_text, OF pats few many]
  have "split_into_chapters (\<lambda>p t. if p = Heading_Line then [''x'', ''y'', ''z''] else sample_findall p t)
        numbered_text = split_into_chapters sample_findall numbered_text"
    by (rule won [THEN conjunct2, THEN conjunct2, THEN conjunct2, rule_format]) auto
  moreover have "split_into_chapters sample_findall numbered_text =
       [\<lparr>chapter_number = 1, title = ''7. a'', content = ''7. a''\<rparr>,
        \<lparr>chapter_number = 2, title = ''9. b'', content = ''9. b''\<rparr>]"
    using won [THEN conjunct1] chs by simp
  ultimately show ?thesis
    using pats by (simp add: sample_findall_def)
qed

lemma segment_text_cases:
  "map chapter_number (segment_text findall split_text t)
     = [1..int (length (segment_text findall split_text t))]
   \<and> ((segment_text findall split_text t = [])
      = ((\<forall>p\<in>set chapter_patterns. length (findall p t) \<le> 1) \<and> split_text t = []))"
proof (cases "\<forall>p\<in>set chapter_patterns. length (findall p t) \<le> 1")
  case True
  then have "try_patterns findall chapter_patterns t = []"
    by (rule try_patterns_none)
  then have "segment_text findall split_text t = split_by_chunks split_text t"
    by (simp add: segment_text_def split_into_chapters_def)
  moreover have "(split_by_chunks split_text t = []) = (split_text t = [])"
    by (simp add: split_by_chunks_def enumerate_eq_zip)
  ultimately show ?thesis
    using True by (simp add: chapter_number_split_by_chunks)
next
  case False
  then have ne: "try_patterns findall chapter_patterns t \<noteq> []"
    by (simp add: try_patterns_Nil_iff)
  then have len: "length (try_patterns findall chapter_patterns t) \<noteq> 0" by simp
  have "length (try_patterns findall chapter_patterns t) \<noteq> Suc 0"
    by (rule try_patterns_length)
  with len have "\<not> length (try_patterns findall chapter_patterns t) \<le> 1" by arith
  with ne have "segment_text findall split_text t = try_patterns findall chapter_patterns t"
    by (simp add: segment_text_def split_into_chapters_def)
  with False ne show ?thesis
    by (simp add: try_patterns_numbers)
qed


text \<open>
  Claim C2, as the code has it. For every text, every matcher and every splitter, the chapter
  numbers of the segmentation are exactly 1 to N in output order, and the output is non-empty
  whenever a pattern has more than one match or the splitter returns at least one chunk.
\<close>

theorem segment_numbering:
  "map chapter_number (segment_text findall split_text t)
     = [1..int (length (segment_text findall split_text t))]
   \<and> ((\<exists>p\<in>set chapter_patterns. 1 < length (findall p t)) \<or> split_text t \<noteq> []
        \<longrightarrow> segment_text findall split_text t \<noteq> [])"
  using segment_text_cases [of findall split_text t] by (auto simp: not_le)

theorem segment_numbering_witness:
  "map chapter_number (segment_text sample_findall short_text_chunks numbered_text) = [1, 2]
   \<and> map chapter_number (segment_text sample_findall short_text_chunks ''Chapter 1 only'') = [1]
   \<and> segment_text sample_findall short_text_chunks ''Chapter 1 only'' \<noteq> []"
proof -
  have a: "length (segment_text sample_findall short_text_chunks numbered_text) = 2"
    by code_simp
  have b: "length (segment_text sample_findall short_text_chunks ''Chapter 1 only'') = 1"
    by code_simp
  have c: "[1..2] = [1, 2::int]" "[1..1] = [1::int]" by code_simp+
  have d: "short_text_chunks ''Chapter 1 only'' \<noteq> []" by code_simp
  show ?thesis
    using segment_numbering [of sample_findall short_text_chunks numbered_text]
      segment_numbering [of sample_findall short_text_chunks "''Chapter 1 only''"] a b c d
    by simp
qed

text \<open>
  The claim as worded promises a non-empty result for the empty string too. No pattern matches
  the empty string, the chunk fallback takes over, and a splitter that drops empty documents
  returns no chunk for it.
\<close>

theorem segment_numbering_counterexample: "segment_text (\<lambda>p t. []) short_text_chunks '''' = []"
  by code_simp

text \<open>
  Claim C7, as the code has it. When no pattern has more than one match,
  \<^verbatim>\<open>_split_into_chapters\<close> yields exactly one unit holding the whole stripped document, and
  \<^verbatim>\<open>extract_chapters\<close> then replaces it with the chunk split: one section per chunk of the
  splitter.
\<close>

theorem no_boundary_falls_back_to_chunks:
  assumes "\<forall>p\<in>set chapter_patterns. length (findall p t) \<le> 1"
  shows "split_into_chapters findall t
           = [\<lparr>chapter_number = 1, title = ''Complete Document'', content = strip t\<rparr>]
       \<and> segment_text findall split_text t = split_by_chunks split_text t
       \<and> length (segment_text findall split_text t) = length (split_text t)"
proof -
  from assms have "try_patterns findall chapter_patterns t = []"
    by (rule try_patterns_none)
  then show ?thesis
    by (simp add: segment_text_def split_into_chapters_def)
qed

theorem no_boundary_falls_back_to_chunks_witness:
  "map (\<lambda>p. length (sample_findall p ''Chapter 1 only'')) chapter_patterns = [0, 1, 1, 0, 0]
   \<and> split_into_chapters sample_findall ''Chapter 1 only''
        = [\<lparr>chapter_number = 1, title = ''Complete Document'', content = ''Chapter 1 only''\<rparr>]
   \<and> segment_text sample_findall short_text_chunks ''Chapter 1 only''
        = [\<lparr>chapter_number = 1, title = ''Section 1'', content = ''Chapter 1 only''\<rparr>]"
proof -
  have h: "\<forall>p\<in>set chapter_patterns. length (sample_findall p ''Chapter 1 only'') \<le> 1"
    by (simp add: chapter_patterns_def sample_findall_def numbered_text_def)
  have c: "split_by_chunks short_text_chunks ''Chapter 1 only''
        = [\<lparr>chapter_number = 1, title = ''Section 1'', content = ''Chapter 1 only''\<rparr>]"
    by code_simp
  have s: "strip ''Chapter 1 only'' = ''Chapter 1 only''" by code_simp
  show ?thesis
    using no_boundary_falls_back_to_chunks [of sample_findall "''Chapter 1 only''" short_text_chunks] h c s
    by (simp add: chapter_patterns_def sample_findall_def numbered_text_def)
qed

text \<open>
  The claim as worded promises exactly one unit. A text of 4001 letters has no boundary, and
  the splitter cuts it into two windows, so the segmentation has two sections.
\<close>

theorem no_boundary_counterexample:
  "map (\<lambda>p. length ((\<lambda>p t. []) p (replicate 4001 CHR ''a''))) chapter_patterns = [0, 0, 0, 0, 0]
   \<and> length (segment_text (\<lambda>p t. []) two_window_chunks (replicate 4001 CHR ''a'')) = 2"
  by (simp add: chapter_patterns_def segment_text_def split_into_chapters_def two_window_chunks_def
      split_by_chunks_def)

text \<open>
  \<^const>\<open>extract_chapters\<close> returns the segmentation of the joined page texts, or the failure of
  the loader.
\<close>

lemma extract_chapters_segments:
  "load pdf_path = Inr pages \<Longrightarrow>
   fst (extract_chapters load findall split_text pdf_path w)
     = Inr (segment_text findall split_text (join [CHR 0x0A] pages))"
  by (simp add: extract_chapters_def Let_def)

lemma extract_chapters_propagates:
  "load pdf_path = Inl e \<Longrightarrow> fst (extract_chapters load findall split_text pdf_path w) = Inl e"
  by (simp add: extract_chapters_def Let_def)

section \<open>Properties of the model calls\<close>

text \<open>
  Claim C4 asks for exactly one request per extraction, failing only when the transport or the
  parser fails. The module never imports \<^verbatim>\<open>json\<close>, so building the inputs of the chain raises
  \<^verbatim>\<open>NameError\<close>: for every chapter content, template, model and parser the method logs the
  start, logs the unexpected error and raises, and no request is sent.
\<close>

theorem extraction_raises_name_error:
  "extract_knowledge_from_chapter dumps llm parse chapter_content json_structure w =
     (Inl (Exc NameError (''name '' @ [CHR 0x27] @ ''json'' @ [CHR 0x27] @ '' is not defined'')),
      w\<lparr>logged := logged w @
           [(INFO, ''Starting knowledge extraction with LangChain''),
            (ERROR, ''Unexpected error in knowledge extraction: name '' @ [CHR 0x27] @ ''json''
                    @ [CHR 0x27] @ '' is not defined'')]\<rparr>)
   \<and> requests (snd (extract_knowledge_from_chapter dumps llm parse chapter_content json_structure w))
       = requests w"
  by (simp add: extract_knowledge_from_chapter_def extract_knowledge_from_chapter_in_def
      module_names_def load_name_def log_info_def log_error_def)

text \<open>
  In a module that binds \<^verbatim>\<open>json\<close> the method does what the claim says: it sends one
  request, whose prompt holds the serialized template, and its outcome is the failure of the
  model, else the failure of the parser, else the new object.
\<close>

lemma extraction_with_json_bound:
  assumes "''json'' \<in> set names"
    and "extract_knowledge_from_chapter_in names dumps llm parse chapter_content json_structure w
           = (r, w')"
  shows "requests w' = requests w @ [knowledge_prompt chapter_content (dumps (heap w json_structure))]"
    and "r = (case llm (requests w') of
                Inl e \<Rightarrow> Inl e
              | Inr answer \<Rightarrow> (case parse answer of Inl e \<Rightarrow> Inl e | Inr v \<Rightarrow> Inr (next_ref w)))"
  using assms
  by (auto simp: extract_knowledge_from_chapter_in_def load_name_def ainvoke_def alloc_def
      log_info_def log_error_def Let_def split: sum.splits)

lemma ainvoke_frame:
  assumes "ainvoke llm parse req w = (r, w')"
  shows "(\<forall>a<next_ref w. heap w' a = heap w a) \<and> next_ref w \<le> next_ref w'
       \<and> requests w' = requests w @ [req] \<and> logged w' = logged w"
  using assms
  by (auto simp: ainvoke_def alloc_def Let_def split: sum.splits)

lemma merge_frame:
  assumes "merge_knowledge_points_in names dumps llm parse points target w = (r, w')"
  shows "(\<forall>a<next_ref w. heap w' a = heap w a) \<and> next_ref w \<le> next_ref w'
       \<and> requests w' =
           (if ''json'' \<in> set names
            then requests w @ [merge_prompt (dumps (JArray (map (heap w) points))) (dumps (heap w target))]
            else requests w)"
proof (cases "''json'' \<in> set names")
  case False
  with assms show ?thesis
    by (auto simp: merge_knowledge_points_in_def load_name_def log_info_def log_error_def Let_def)
next
  case True
  let ?w1 = "log_info ''Starting knowledge points merge'' w"
  let ?req = "merge_prompt (dumps (JArray (map (heap w) points))) (dumps (heap w target))"
  obtain r1 w2 where inv: "ainvoke llm parse ?req ?w1 = (r1, w2)"
    by (cases "ainvoke llm parse ?req ?w1")
  from ainvoke_frame [OF inv] have fr: "\<forall>a<next_ref w. heap w2 a = heap w a"
    "next_ref w \<le> next_ref w2" "requests w2 = requests w @ [?req]"
    by (simp_all add: log_info_def)
  from assms True inv have "w' = log_error (''Error merging knowledge points: '' @ exc_str (projl r1)) w2
      \<or> w' = log_info ''Successfully merged knowledge points'' w2"
    by (auto simp: merge_knowledge_points_in_def load_name_def log_info_def Let_def split: sum.splits)
  with fr True show ?thesis
    by (auto simp: log_info_def log_error_def)
qed

text \<open>The merge of the repository meets the same unbound name before it sends anything.\<close>

lemma merge_raises_name_error:
  "fst (merge_knowledge_points dumps llm parse points target w)
     = Inl (Exc NameError (''name '' @ [CHR 0x27] @ ''json'' @ [CHR 0x27] @ '' is not defined''))
   \<and> requests (snd (merge_knowledge_points dumps llm parse points target w)) = requests w
   \<and> heap (snd (merge_knowledge_points dumps llm parse points target w)) = heap w"
  by (simp add: merge_knowledge_points_def merge_knowledge_points_in_def
      module_names_def load_name_def log_info_def log_error_def)

lemma frame_filter_results:
  "heap (snd (filter_results i rs acc w)) = heap w
   \<and> next_ref (snd (filter_results i rs acc w)) = next_ref w
   \<and> requests (snd (filter_results i rs acc w)) = requests w"
proof (induction rs arbitrary: i acc w)
  case Nil
  then show ?case by simp
next
  case (Cons r rs)
  then show ?case by (cases r) (simp_all add: log_error_def)
qed

text \<open>
  Claim C9. A merge call leaves every object that existed before it as it was: the results and
  the template are only read, and the parsed answer is a new object. So two merge calls on the
  same results serialize the same text; when the module binds \<^verbatim>\<open>json\<close> the two requests are
  equal, and when it does not (as in the repository) no request is sent. The orchestrator,
  once the results are gathered, filters them, logs and calls the merge: it leaves every
  existing object as it was too.
\<close>

theorem merge_does_not_mutate_results:
  assumes "merge_knowledge_points_in names dumps llm parse points target w = (r1, w1)"
    and "merge_knowledge_points_in names dumps llm parse points target w1 = (r2, w2)"
    and "\<forall>a\<in>set (target # points). a < next_ref w"
  shows "(\<forall>a<next_ref w. heap w1 a = heap w a \<and> heap w2 a = heap w a)
       \<and> map (heap w1) points = map (heap w) points
       \<and> map (heap w2) points = map (heap w) points
       \<and> dumps (JArray (map (heap w1) points)) = dumps (JArray (map (heap w) points))
       \<and> dumps (JArray (map (heap w2) points)) = dumps (JArray (map (heap w) points))
       \<and> requests w2 =
           (if ''json'' \<in> set names
            then requests w @ [merge_prompt (dumps (JArray (map (heap w) points))) (dumps (heap w target)),
                               merge_prompt (dumps (JArray (map (heap w) points))) (dumps (heap w target))]
            else requests w)
       \<and> (\<forall>chapter_results w0. heap (snd (filter_results 0 chapter_results [] w0)) = heap w0)
       \<and> (\<forall>chapter_results w0 out.
             out = reraise_logged (merge_successful (merge_knowledge_points_in names dumps llm parse)
                                     chapter_results target w0)
             \<longrightarrow> (\<forall>a<next_ref w0. heap (snd out) a = heap w0 a))"
proof -
  note f1 = merge_frame [OF assms(1)]
  note f2 = merge_frame [OF assms(2)]
  have h1: "\<forall>a<next_ref w. heap w1 a = heap w a" using f1 by simp
  have h2: "\<forall>a<next_ref w. heap w2 a = heap w a" using f1 f2 by auto
  have p1: "map (heap w1) points = map (heap w) points"
    using h1 assms(3) by simp
  have p2: "map (heap w2) points = map (heap w) points"
    using h2 assms(3) by simp
  have t1: "heap w1 target = heap w target" using h1 assms(3) by simp
  have req: "requests w2 =
           (if ''json'' \<in> set names
            then requests w @ [merge_prompt (dumps (JArray (map (heap w) points))) (dumps (heap w target)),
                               merge_prompt (dumps (JArray (map (heap w) points))) (dumps (heap w target))]
            else requests w)"
    using f1 f2 by (simp add: p1 t1)
  have orch: "\<forall>a<next_ref w0. heap (snd out) a = heap w0 a"
    if out: "out = reraise_logged (merge_successful (merge_knowledge_points_in names dumps llm parse)
                                     chapter_results target w0)"
    for chapter_results w0 out
  proof -
    let ?f = "filter_results 0 chapter_results [] w0"
    let ?w = "log_info (''Successfully processed '' @ str_nat (length (fst ?f)) @ '' chapters'') (snd ?f)"
    obtain r w' where m: "merge_knowledge_points_in names dumps llm parse (fst ?f) target ?w = (r, w')"
      by (cases "merge_knowledge_points_in names dumps llm parse (fst ?f) target ?w")
    have fr: "heap (snd ?f) = heap w0" "next_ref (snd ?f) = next_ref w0"
      using frame_filter_results [of 0 chapter_results "[]" w0] by simp_all
    from merge_frame [OF m] have "\<forall>a<next_ref w0. heap w' a = heap w0 a"
      by (simp add: log_info_def fr)
    then have merged: "\<forall>a<next_ref w0.
        heap (snd (merge_knowledge_points_in names dumps llm parse (fst ?f) target ?w)) a = heap w0 a"
      by (simp only: m snd_conv)
    have rl: "heap (snd (reraise_logged x)) = heap (snd x)" for x :: "(exc + nat) \<times> world"
      by (cases x rule: reraise_logged.cases) (simp_all add: log_error_def)
    have ms: "merge_successful (merge_knowledge_points_in names dumps llm parse) chapter_results target w0
          = (if fst ?f = [] then (Inl pipeline_failure, snd ?f)
             else merge_knowledge_points_in names dumps llm parse (fst ?f) target ?w)"
      by (simp only: merge_successful_def Let_def case_prod_unfold)
    show ?thesis
    proof (cases "fst ?f = []")
      case True
      then show ?thesis
        unfolding out rl ms by (simp add: fr)
    next
      case False
      then show ?thesis
        unfolding out rl ms using merged by (simp only: if_False) 
    qed
  qed
  have hh: "\<forall>a<next_ref w. heap w1 a = heap w a \<and> heap w2 a = heap w a"
    using h1 h2 by simp
  have d1: "dumps (JArray (map (heap w1) points)) = dumps (JArray (map (heap w) points))"
    by (simp only: p1)
  have d2: "dumps (JArray (map (heap w2) points)) = dumps (JArray (map (heap w) points))"
    by (simp only: p2)
  have orch': "\<forall>chapter_results w0 out.
             out = reraise_logged (merge_successful (merge_knowledge_points_in names dumps llm parse)
                                     chapter_results target w0)
             \<longrightarrow> (\<forall>a<next_ref w0. heap (snd out) a = heap w0 a)"
    using orch by blast
  have filt: "\<forall>chapter_results w0. heap (snd (filter_results 0 chapter_results [] w0)) = heap w0"
    by (simp add: frame_filter_results)
  show ?thesis
    by (intro conjI) (fact hh p1 p2 d1 d2 req filt orch')+
qed

theorem merge_does_not_mutate_results_witness:
  "\<exists>r1 w1 r2 w2.
      merge_knowledge_points_in (''json'' # module_names) sample_dumps (\<lambda>reqs. Inr ''{}'')
        (\<lambda>answer. Inr (JObject [])) [1, 2] 0 sample_results_world = (r1, w1)
    \<and> merge_knowledge_points_in (''json'' # module_names) sample_dumps (\<lambda>reqs. Inr ''{}'')
        (\<lambda>answer. Inr (JObject [])) [1, 2] 0 w1 = (r2, w2)
    \<and> list_all (\<lambda>a. a < next_ref sample_results_world) [0, 1, 2]
    \<and> map (heap w2) [1, 2] = map (heap sample_results_world) [1, 2]
    \<and> map (heap sample_results_world) [1, 2]
        = [JObject [(''topics'', JArray [JString ''X''])], JObject [(''topics'', JArray [JString ''Y''])]]
    \<and> length (requests w2) = 2
    \<and> requests w2 ! 0 = requests w2 ! 1"
proof -
  let ?merge = "merge_knowledge_points_in (''json'' # module_names) sample_dumps (\<lambda>reqs. Inr ''{}'')
        (\<lambda>answer. Inr (JObject [])) [1, 2] 0"
  obtain r1 w1 where m1: "?merge sample_results_world = (r1, w1)"
    by (cases "?merge sample_results_world")
  obtain r2 w2 where m2: "?merge w1 = (r2, w2)"
    by (cases "?merge w1")
  have alloc: "\<forall>a\<in>set (0 # [1, 2]). a < next_ref sample_results_world"
    by (simp add: sample_results_world_def sample_world_def alloc_def)
  have objs: "map (heap sample_results_world) [1, 2]
        = [JObject [(''topics'', JArray [JString ''X''])], JObject [(''topics'', JArray [JString ''Y''])]]"
    by (simp add: sample_results_world_def sample_world_def alloc_def)
  have none: "requests sample_results_world = []"
    by (simp add: sample_results_world_def sample_world_def alloc_def)
  note t = merge_does_not_mutate_results [OF m1 m2 alloc]
  have same: "map (heap w2) [1, 2] = map (heap sample_results_world) [1, 2]"
    using t by (elim conjE)
  have reqs: "requests w2 =
           (if ''json'' \<in> set (''json'' # module_names)
            then requests sample_results_world
                 @ [merge_prompt (sample_dumps (JArray (map (heap sample_results_world) [1, 2])))
                                 (sample_dumps (heap sample_results_world 0)),
                    merge_prompt (sample_dumps (JArray (map (heap sample_results_world) [1, 2])))
                                 (sample_dumps (heap sample_results_world 0))]
            else requests sample_results_world)"
    using t by (elim conjE)
  then have two: "length (requests w2) = 2" and eq: "requests w2 ! 0 = requests w2 ! 1"
    by (simp_all add: none)
  from alloc have all: "list_all (\<lambda>a. a < next_ref sample_results_world) [0, 1, 2]"
    by simp
  show ?thesis
    by (intro exI [of _ r1] exI [of _ w1] exI [of _ r2] exI [of _ w2] conjI)
       (fact m1 m2 all same objs two eq)+
qed

section \<open>Properties of the orchestrator\<close>

lemma count_update_gain:
  "i < length xs \<Longrightarrow> \<not> P (xs ! i) \<Longrightarrow> P y \<Longrightarrow>
   length (filter P (xs[i := y])) = Suc (length (filter P xs))"
proof (induction xs arbitrary: i)
  case Nil
  then show ?case by simp
next
  case (Cons x xs)
  then show ?case by (cases i) simp_all
qed

lemma count_update_lose:
  "i < length xs \<Longrightarrow> P (xs ! i) \<Longrightarrow> \<not> P y \<Longrightarrow>
   Suc (length (filter P (xs[i := y]))) = length (filter P xs)"
proof (induction xs arbitrary: i)
  case Nil
  then show ?case by simp
next
  case (Cons x xs)
  then show ?case by (cases i) simp_all
qed

lemma step_keeps_balance:
  assumes "step extract ks ev s = Some s'"
  shows "in_flight s' + permits s' = in_flight s + permits s"
proof (cases ev)
  case (Acquire i)
  with assms have i: "i < length (tasks s)" and p: "snd (tasks s ! i) = Pending"
    and k: "0 < permits s"
    and s': "s' = s\<lparr>permits := permits s - 1,
                   tasks := (tasks s)[i := (fst (tasks s ! i), In_Flight)],
                   gworld := start_chapter (fst (tasks s ! i)) (gworld s)\<rparr>"
    by (auto split: if_splits)
  have "in_flight s' = Suc (in_flight s)"
    unfolding in_flight_def s' using i p
    by (simp add: count_update_gain)
  with k s' show ?thesis by simp
next
  case (Complete i)
  with assms have i: "i < length (tasks s)" and p: "snd (tasks s ! i) = In_Flight"
    by (auto split: if_splits)
  from Complete assms i p obtain r w where
    s': "s' = s\<lparr>permits := permits s + 1,
                  tasks := (tasks s)[i := (fst (tasks s ! i), Done r)],
                  gworld := w\<rparr>"
    by (auto split: prod.splits)
  have "Suc (in_flight s') = in_flight s"
    unfolding in_flight_def s' using i p
    by (simp add: count_update_lose)
  with s' show ?thesis by simp
qed

lemma run_events_keeps_balance:
  "run_events extract ks evs s = Some s' \<Longrightarrow> in_flight s' + permits s' = in_flight s + permits s"
proof (induction evs arbitrary: s)
  case Nil
  then show ?case by simp
next
  case (Cons ev evs)
  then obtain s1 where 1: "step extract ks ev s = Some s1"
    and 2: "run_events extract ks evs s1 = Some s'"
    by (auto split: option.splits)
  from Cons.IH [OF 2] step_keeps_balance [OF 1] show ?case by simp
qed

lemma run_events_append:
  "run_events extract ks (xs @ ys) s =
     (case run_events extract ks xs s of
        None \<Rightarrow> None
      | Some s' \<Rightarrow> run_events extract ks ys s')"
  by (induction xs arbitrary: s) (auto split: option.splits)

lemma run_events_prefix:
  assumes "run_events extract ks evs s = Some s'"
  shows "\<exists>s1. run_events extract ks (take n evs) s = Some s1"
proof -
  have "run_events extract ks (take n evs @ drop n evs) s = Some s'"
    using assms by simp
  then show ?thesis
    unfolding run_events_append by (auto split: option.splits)
qed

lemma in_flight_initial [simp]: "in_flight (initial_state k chapters w) = 0"
  by (simp add: in_flight_def initial_state_def filter_empty_conv)

lemma permits_initial [simp]: "permits (initial_state k chapters w) = k"
  by (simp add: initial_state_def)

lemma step_complete_releases:
  assumes "step extract ks (Complete i) s1 = Some s2"
  shows "snd (tasks s1 ! i) = In_Flight \<and> permits s2 = permits s1 + 1
       \<and> is_done (snd (tasks s2 ! i))
       \<and> (\<forall>j. j \<noteq> i \<longrightarrow> tasks s2 ! j = tasks s1 ! j)"
  using assms by (auto split: if_splits prod.splits)

lemma step_acquire_takes:
  assumes "step extract ks (Acquire i) s1 = Some s2"
  shows "0 < permits s1 \<and> Suc (permits s2) = permits s1 \<and> snd (tasks s1 ! i) = Pending
       \<and> snd (tasks s2 ! i) = In_Flight"
  using assms by (auto split: if_splits)

lemmas sample_defs = sample_schedule_def initial_state_def sample_chapters_def fake_extract_def
      finish_chapter_def start_chapter_def alloc_def setitem_def log_info_def log_error_def
      chapter_info_def Let_def sample_world_def extract_knowledge_points_def
      default_max_concurrent_requests_def all_done_def merge_successful_def fake_merge_def
      topics_of_def pipeline_failure_def


text \<open>
  Claim C3. Along every run of the tasks from the initial state with \<open>k\<close> permits, after any
  number of events, the calls in flight and the free permits add up to \<open>k\<close>; so at most \<open>k\<close>
  calls are in flight, for every number of chapters. A task takes a permit before its call
  starts, and gives it back when the call completes, whether it returned or raised.
\<close>

theorem concurrency_ceiling:
  assumes "run_events extract ks events (initial_state k chapters w) = Some s"
  shows "(\<forall>n\<le>length events.
           \<exists>s'. run_events extract ks (take n events) (initial_state k chapters w) = Some s'
              \<and> in_flight s' \<le> k
              \<and> in_flight s' + permits s' = k)
       \<and> (\<forall>i s1 s2. step extract ks (Acquire i) s1 = Some s2 \<longrightarrow>
             0 < permits s1 \<and> Suc (permits s2) = permits s1 \<and> snd (tasks s2 ! i) = In_Flight)
       \<and> (\<forall>i s1 s2. step extract ks (Complete i) s1 = Some s2 \<longrightarrow>
             snd (tasks s1 ! i) = In_Flight \<and> permits s2 = permits s1 + 1)"
proof (intro conjI allI impI)
  fix n
  from run_events_prefix [OF assms] obtain s1 where
    s1: "run_events extract ks (take n events) (initial_state k chapters w) = Some s1"
    by blast
  from run_events_keeps_balance [OF s1] have "in_flight s1 + permits s1 = k"
    by simp
  with s1 show "\<exists>s'. run_events extract ks (take n events) (initial_state k chapters w) = Some s'
              \<and> in_flight s' \<le> k \<and> in_flight s' + permits s' = k"
    by auto
qed (use step_acquire_takes step_complete_releases in blast)+

theorem concurrency_ceiling_witness:
  "\<exists>s. run_events fake_extract 0 limited_schedule (initial_state 2 sample_chapters sample_world) = Some s
     \<and> all_done s
     \<and> (\<exists>s'. run_events fake_extract 0 (take 2 limited_schedule)
                 (initial_state 2 sample_chapters sample_world) = Some s'
            \<and> in_flight s' \<le> 2 \<and> in_flight s' + permits s' = 2 \<and> in_flight s' = 2)
     \<and> run_events fake_extract 0 [Acquire 0, Acquire 1, Acquire 2]
          (initial_state 2 sample_chapters sample_world) = None"
proof -
  have "\<exists>s. run_events fake_extract 0 limited_schedule (initial_state 2 sample_chapters sample_world) = Some s
      \<and> tasks s = zip sample_chapters [Done (Inr 2), Done (Inr 1), Done (Inl (Exc Exception ''no answer''))]"
    by (simp add: sample_defs limited_schedule_def)
  then obtain s where
    run: "run_events fake_extract 0 limited_schedule (initial_state 2 sample_chapters sample_world) = Some s"
    and ts: "tasks s = zip sample_chapters [Done (Inr 2), Done (Inr 1), Done (Inl (Exc Exception ''no answer''))]"
    by blast
  have fin: "all_done s"
    by (simp add: all_done_def ts sample_chapters_def)
  have two: "2 \<le> length limited_schedule" by (simp add: limited_schedule_def)
  from concurrency_ceiling [OF run, THEN conjunct1, rule_format, OF two] obtain s' where
    s': "run_events fake_extract 0 (take 2 limited_schedule)
                 (initial_state 2 sample_chapters sample_world) = Some s'"
      "in_flight s' \<le> 2" "in_flight s' + permits s' = 2"
    by blast
  have "\<exists>s'. run_events fake_extract 0 (take 2 limited_schedule)
                 (initial_state 2 sample_chapters sample_world) = Some s' \<and> in_flight s' = 2"
    by (simp add: sample_defs limited_schedule_def in_flight_def)
  with s' have full: "in_flight s' = 2" by auto
  have refused: "run_events fake_extract 0 [Acquire 0, Acquire 1, Acquire 2]
          (initial_state 2 sample_chapters sample_world) = None"
    by (simp add: sample_defs)
  from run fin s' full refused show ?thesis
    by (intro exI [of _ s] conjI exI [of _ s'])
qed

text \<open>
  Claim C6. When the extraction call of a chapter returns a JSON object, the task stores the
  chapter's number and title under \<^verbatim>\<open>_chapter_info\<close> in that object, leaves its other keys and
  all other objects alone, and only then is done with that object as its result: the output
  sequence is built from the results of the tasks that are done.
\<close>

theorem provenance_inserted:
  assumes "extract (content c) ks w = (Inr result, w1)"
    and "heap w1 result = JObject items"
  shows "\<exists>w2. finish_chapter extract c ks w = (Inr result, w2)
           \<and> heap w2 result = JObject (AList.update ''_chapter_info'' (chapter_info c) items)
           \<and> map_of (AList.update ''_chapter_info'' (chapter_info c) items) ''_chapter_info''
               = Some (JObject [(''chapter_number'', JNumber (chapter_number c)),
                                (''title'', JString (title c))])
           \<and> (\<forall>key. key \<noteq> ''_chapter_info'' \<longrightarrow>
                 map_of (AList.update ''_chapter_info'' (chapter_info c) items) key = map_of items key)
           \<and> (\<forall>a. a \<noteq> result \<longrightarrow> heap w2 a = heap w1 a)
           \<and> (\<forall>s i. i < length (tasks s) \<and> tasks s ! i = (c, In_Flight) \<and> gworld s = w \<longrightarrow>
                 (\<exists>s'. step extract ks (Complete i) s = Some s'
                    \<and> tasks s' ! i = (c, Done (Inr result))
                    \<and> gworld s' = w2))"
proof -
  let ?w2 = "log_info (''Completed processing chapter: '' @ title c)
               (w1\<lparr>heap := (heap w1)(result := JObject (AList.update ''_chapter_info'' (chapter_info c) items))\<rparr>)"
  have fin: "finish_chapter extract c ks w = (Inr result, ?w2)"
    using assms by (simp add: finish_chapter_def setitem_def)
  have "heap ?w2 result = JObject (AList.update ''_chapter_info'' (chapter_info c) items)"
    by (simp add: log_info_def)
  moreover have "map_of (AList.update ''_chapter_info'' (chapter_info c) items) ''_chapter_info''
               = Some (JObject [(''chapter_number'', JNumber (chapter_number c)),
                                (''title'', JString (title c))])"
    by (simp add: update_conv' chapter_info_def)
  moreover have "\<forall>key. key \<noteq> ''_chapter_info'' \<longrightarrow>
                 map_of (AList.update ''_chapter_info'' (chapter_info c) items) key = map_of items key"
    by (simp add: update_conv')
  moreover have "\<forall>a. a \<noteq> result \<longrightarrow> heap ?w2 a = heap w1 a"
    by (simp add: log_info_def)
  moreover have "\<forall>s i. i < length (tasks s) \<and> tasks s ! i = (c, In_Flight) \<and> gworld s = w \<longrightarrow>
                 (\<exists>s'. step extract ks (Complete i) s = Some s'
                    \<and> tasks s' ! i = (c, Done (Inr result))
                    \<and> gworld s' = ?w2)"
    using fin by simp
  ultimately show ?thesis using fin by blast
qed

theorem provenance_inserted_witness:
  "\<exists>w2. finish_chapter fake_extract \<lparr>chapter_number = 1, title = ''Chapter 1'', content = ''first''\<rparr>
            0 sample_world = (Inr 1, w2)
       \<and> heap w2 1 = JObject [(''topics'', JArray [JString ''X'']),
                              (''_chapter_info'', JObject [(''chapter_number'', JNumber 1),
                                                           (''title'', JString ''Chapter 1'')])]"
proof -
  let ?c = "\<lparr>chapter_number = 1, title = ''Chapter 1'', content = ''first''\<rparr>"
  let ?w1 = "snd (fake_extract (content ?c) 0 sample_world)"
  have ex: "fake_extract (content ?c) 0 sample_world = (Inr 1, ?w1)"
    by (simp add: fake_extract_def sample_world_def alloc_def)
  have obj: "heap ?w1 1 = JObject [(''topics'', JArray [JString ''X''])]"
    by (simp add: fake_extract_def sample_world_def alloc_def)
  from provenance_inserted
         [of fake_extract ?c 0 sample_world 1 ?w1 "[(''topics'', JArray [JString ''X''])]", OF ex obj]
  obtain w2 where
    "finish_chapter fake_extract ?c 0 sample_world = (Inr 1, w2)"
    "heap w2 1 = JObject (AList.update ''_chapter_info'' (chapter_info ?c) [(''topics'', JArray [JString ''X''])])"
    by blast
  then show ?thesis
    by (intro exI [of _ w2]) (simp add: chapter_info_def)
qed

lemma step_keeps_chapters:
  "step extract ks ev s = Some s' \<Longrightarrow> map fst (tasks s') = map fst (tasks s)"
  by (cases ev) (auto split: if_splits prod.splits simp: map_update list_update_same_conv)

lemma run_events_keeps_chapters:
  "run_events extract ks evs s = Some s' \<Longrightarrow> map fst (tasks s') = map fst (tasks s)"
proof (induction evs arbitrary: s)
  case Nil
  then show ?case by simp
next
  case (Cons ev evs)
  then obtain s1 where 1: "step extract ks ev s = Some s1"
    and 2: "run_events extract ks evs s1 = Some s'"
    by (auto split: option.splits)
  from Cons.IH [OF 2] step_keeps_chapters [OF 1] show ?case by simp
qed

lemma chapters_of_run:
  assumes "run_events extract ks evs (initial_state k chapters w) = Some s"
  shows "map fst (tasks s) = chapters"
  using run_events_keeps_chapters [OF assms] by (simp add: initial_state_def comp_def)

lemma outcomes_all_done:
  "list_all (\<lambda>t. is_done (snd t)) ts \<Longrightarrow>
   length (outcomes ts) = length ts \<and> (\<forall>i<length ts. snd (ts ! i) = Done (outcomes ts ! i))"
proof (induction ts)
  case Nil
  then show ?case by simp
next
  case (Cons t ts)
  obtain c st where t: "t = (c, st)" by (cases t)
  with Cons.prems obtain r where st: "st = Done r" by (cases st) auto
  from Cons show ?case
    by (auto simp: t st nth_Cons split: nat.splits)
qed

lemma fst_filter_results:
  "fst (filter_results i rs acc w) = acc @ map projr (filter (\<lambda>r. \<not> isl r) rs)"
proof (induction rs arbitrary: i acc w)
  case Nil
  then show ?case by simp
next
  case (Cons r rs)
  then show ?case by (cases r) simp_all
qed






lemma sample_tasks:
  "\<exists>s. run_events fake_extract 0 sample_schedule (initial_state 3 sample_chapters sample_world) = Some s
      \<and> tasks s = zip sample_chapters [Done (Inr 2), Done (Inr 1), Done (Inl (Exc Exception ''no answer''))]"
    by (simp add: sample_defs)

text \<open>
  The outcome of a task: the failure of its extraction call, or a \<^verbatim>\<open>TypeError\<close> when the
  call returned something that is not a dictionary, or the returned object.
\<close>

lemma failed_call_fails_task:
  "extract (content c) ks w = (Inl e, w1) \<Longrightarrow>
   finish_chapter extract c ks w
     = (Inl e, log_error (''Error processing chapter '' @ title c @ '': '' @ exc_str e) w1)"
  by (simp add: finish_chapter_def)

lemma object_result_succeeds:
  "extract (content c) ks w = (Inr result, w1) \<Longrightarrow> heap w1 result = JObject items \<Longrightarrow>
   fst (finish_chapter extract c ks w) = Inr result"
  by (simp add: finish_chapter_def setitem_def)

lemma other_result_fails_task:
  "extract (content c) ks w = (Inr result, w1) \<Longrightarrow> \<forall>items. heap w1 result \<noteq> JObject items \<Longrightarrow>
   \<exists>msg. fst (finish_chapter extract c ks w) = Inl (Exc TypeError msg)"
  by (cases "heap w1 result") (simp_all add: finish_chapter_def setitem_def)

text \<open>
  With at least one permit the tasks can always be run to the end, one after the other; a
  failed call holds nothing back.
\<close>

lemma one_by_one_run:
  assumes "0 < permits s"
    and "tasks s = finished @ map (\<lambda>c. (c, Pending)) cs"
    and "list_all (\<lambda>t. is_done (snd t)) finished"
  shows "\<exists>evs s'. run_events extract ks evs s = Some s' \<and> all_done s' \<and> permits s' = permits s
            \<and> length evs = 2 * length cs"
  using assms
proof (induction cs arbitrary: s finished)
  case Nil
  then have "all_done s" by (simp add: all_done_def)
  then show ?case by (intro exI [of _ "[]"] exI [of _ s]) simp
next
  case (Cons c cs)
  let ?i = "length finished"
  let ?s1 = "s\<lparr>permits := permits s - 1,
                 tasks := (tasks s)[?i := (fst (tasks s ! ?i), In_Flight)],
                 gworld := start_chapter (fst (tasks s ! ?i)) (gworld s)\<rparr>"
  have i: "?i < length (tasks s)" and at: "tasks s ! ?i = (c, Pending)"
    using Cons.prems(2) by (simp_all add: nth_append)
  have step1: "step extract ks (Acquire ?i) s = Some ?s1"
    using i at Cons.prems(1) by simp
  have t1: "tasks ?s1 = finished @ (c, In_Flight) # map (\<lambda>c. (c, Pending)) cs"
    using Cons.prems(2) at by (simp add: list_update_append)
  obtain r w where fin: "finish_chapter extract c ks (gworld ?s1) = (r, w)"
    by (cases "finish_chapter extract c ks (gworld ?s1)")
  let ?s2 = "?s1\<lparr>permits := permits ?s1 + 1,
                  tasks := (tasks ?s1)[?i := (fst (tasks ?s1 ! ?i), Done r)],
                  gworld := w\<rparr>"
  have at1: "tasks ?s1 ! ?i = (c, In_Flight)" and i1: "?i < length (tasks ?s1)"
    unfolding t1 by (simp_all add: nth_append)
  have step2: "step extract ks (Complete ?i) ?s1 = Some ?s2"
    using at1 i1 fin by (simp del: gather_state.simps)
  have p2: "permits ?s2 = permits s"
    using Cons.prems(1) by simp
  have t2: "tasks ?s2 = (finished @ [(c, Done r)]) @ map (\<lambda>c. (c, Pending)) cs"
    using t1 by (simp add: list_update_append)
  have d2: "list_all (\<lambda>t. is_done (snd t)) (finished @ [(c, Done r)])"
    using Cons.prems(3) by simp
  have pos2: "0 < permits ?s2" using Cons.prems(1) by simp
  from Cons.IH [OF pos2 t2 d2] obtain evs s' where
    rest: "run_events extract ks evs ?s2 = Some s'" "all_done s'" "permits s' = permits ?s2"
      "length evs = 2 * length cs"
    by blast
  have "run_events extract ks (Acquire ?i # Complete ?i # evs) s = Some s'"
    using step1 step2 rest(1) by (simp del: step.simps)
  with rest p2 show ?case
    by (intro exI [of _ "Acquire ?i # Complete ?i # evs"] exI [of _ s']) simp
qed

lemma complete_run_exists:
  assumes "0 < k"
  shows "\<exists>events s. run_events extract ks events (initial_state k chapters w) = Some s
            \<and> all_done s \<and> length events = 2 * length chapters"
proof -
  have "tasks (initial_state k chapters w) = [] @ map (\<lambda>c. (c, Pending)) chapters"
    by (simp add: initial_state_def)
  moreover have "0 < permits (initial_state k chapters w)"
    using assms by (simp add: initial_state_def)
  ultimately show ?thesis
    using one_by_one_run [of "initial_state k chapters w" "[]" chapters "extract" ks] by auto
qed



lemma filter_nth_exists:
  "j < length xs \<Longrightarrow> P (xs ! j) \<Longrightarrow> \<exists>q<length (filter P xs). filter P xs ! q = xs ! j"
proof (induction xs arbitrary: j)
  case Nil
  then show ?case by simp
next
  case (Cons x xs)
  show ?case
  proof (cases j)
    case 0
    with Cons.prems show ?thesis by (intro exI [of _ 0]) simp
  next
    case (Suc j')
    with Cons.prems have "j' < length xs" "P (xs ! j')" by simp_all
    then obtain q where q: "q < length (filter P xs)" "filter P xs ! q = xs ! j'"
      using Cons.IH [of j'] by blast
    show ?thesis
    proof (cases "P x")
      case True
      with q Suc show ?thesis by (intro exI [of _ "Suc q"]) simp
    next
      case False
      with q Suc show ?thesis by (intro exI [of _ q]) simp
    qed
  qed
qed

lemma filter_nth_order:
  "i < j \<Longrightarrow> j < length xs \<Longrightarrow> P (xs ! i) \<Longrightarrow> P (xs ! j) \<Longrightarrow>
   \<exists>p q. p < q \<and> q < length (filter P xs) \<and> filter P xs ! p = xs ! i \<and> filter P xs ! q = xs ! j"
proof (induction xs arbitrary: i j)
  case Nil
  then show ?case by simp
next
  case (Cons x xs)
  from Cons.prems obtain j' where j: "j = Suc j'" by (cases j) auto
  show ?case
  proof (cases i)
    case 0
    from Cons.prems j have "j' < length xs" "P (xs ! j')" by simp_all
    then obtain q where
      q: "q < length (filter P xs)" "filter P xs ! q = xs ! j'"
      using filter_nth_exists [of j' xs P] by blast
    from 0 Cons.prems have "P x" by simp
    with q 0 j show ?thesis
      by (intro exI [of _ 0] exI [of _ "Suc q"]) simp
  next
    case (Suc i')
    with Cons.prems j have "i' < j'" "j' < length xs" "P (xs ! i')" "P (xs ! j')" by simp_all
    then obtain p q where
      pq: "p < q" "q < length (filter P xs)" "filter P xs ! p = xs ! i'" "filter P xs ! q = xs ! j'"
      using Cons.IH [of i' j'] by blast
    show ?thesis
    proof (cases "P x")
      case True
      with pq Suc j show ?thesis
        by (intro exI [of _ "Suc p"] exI [of _ "Suc q"]) simp
    next
      case False
      with pq Suc j show ?thesis
        by (intro exI [of _ p] exI [of _ q]) simp
    qed
  qed
qed

text \<open>
  Claim C10. The tasks keep the order of the chapters, and so do the gathered outcomes. When
  chapter \<open>i\<close> comes before chapter \<open>j\<close> and both calls succeeded, the result of \<open>i\<close> comes
  before the result of \<open>j\<close> in the successful results, whatever the order of completion.
\<close>

theorem results_keep_chapter_order:
  assumes "run_events extract ks events (initial_state k chapters w0) = Some s"
    and "all_done s"
  shows "map fst (tasks s) = chapters
       \<and> (\<forall>i j ri rj. i < j \<and> j < length chapters
              \<and> snd (tasks s ! i) = Done (Inr ri) \<and> snd (tasks s ! j) = Done (Inr rj)
            \<longrightarrow> (\<exists>p q. p < q
                    \<and> q < length (fst (filter_results 0 (outcomes (tasks s)) [] (gworld s)))
                    \<and> fst (filter_results 0 (outcomes (tasks s)) [] (gworld s)) ! p = ri
                    \<and> fst (filter_results 0 (outcomes (tasks s)) [] (gworld s)) ! q = rj))"
proof (intro conjI allI impI)
  show chapters: "map fst (tasks s) = chapters"
    using assms(1) by (rule chapters_of_run)
  fix i j ri rj
  assume a: "i < j \<and> j < length chapters
              \<and> snd (tasks s ! i) = Done (Inr ri) \<and> snd (tasks s ! j) = Done (Inr rj)"
  let ?results = "outcomes (tasks s)"
  let ?ok = "\<lambda>r :: exc + nat. \<not> isl r"
  have len: "length (tasks s) = length chapters"
    using chapters by (metis length_map)
  from assms(2) have aligned: "length ?results = length (tasks s)"
    "\<forall>i<length (tasks s). snd (tasks s ! i) = Done (?results ! i)"
    using outcomes_all_done [of "tasks s"] by (simp_all add: all_done_def)
  from a len aligned have ri: "?results ! i = Inr ri" and rj: "?results ! j = Inr rj"
    by auto
  from a len aligned have "i < j" "j < length ?results" by simp_all
  moreover have "?ok (?results ! i)" "?ok (?results ! j)"
    by (simp_all add: ri rj)
  ultimately obtain p q where pq: "p < q" "q < length (filter ?ok ?results)"
    "filter ?ok ?results ! p = ?results ! i" "filter ?ok ?results ! q = ?results ! j"
    using filter_nth_order [of i j ?results ?ok] by blast
  have succ: "fst (filter_results 0 ?results [] (gworld s)) = map projr (filter ?ok ?results)"
    by (simp add: fst_filter_results)
  from pq have "p < length (filter ?ok ?results)" by simp
  with pq show "\<exists>p q. p < q
                    \<and> q < length (fst (filter_results 0 ?results [] (gworld s)))
                    \<and> fst (filter_results 0 ?results [] (gworld s)) ! p = ri
                    \<and> fst (filter_results 0 ?results [] (gworld s)) ! q = rj"
    unfolding succ
    by (intro exI [of _ p] exI [of _ q]) (simp add: ri rj)
qed

theorem results_keep_chapter_order_witness:
  "\<exists>s. run_events fake_extract 0 sample_schedule (initial_state 3 sample_chapters sample_world) = Some s
     \<and> all_done s
     \<and> snd (tasks s ! 0) = Done (Inr 2) \<and> snd (tasks s ! 1) = Done (Inr 1)
     \<and> (\<exists>p q. p < q
           \<and> q < length (fst (filter_results 0 (outcomes (tasks s)) [] (gworld s)))
           \<and> fst (filter_results 0 (outcomes (tasks s)) [] (gworld s)) ! p = 2
           \<and> fst (filter_results 0 (outcomes (tasks s)) [] (gworld s)) ! q = 1)"
proof -
  from sample_tasks obtain s where
    run: "run_events fake_extract 0 sample_schedule (initial_state 3 sample_chapters sample_world) = Some s"
    and ts: "tasks s = zip sample_chapters [Done (Inr 2), Done (Inr 1), Done (Inl (Exc Exception ''no answer''))]"
    by blast
  have fin: "all_done s"
    by (simp add: all_done_def ts sample_chapters_def)
  have t0: "snd (tasks s ! 0) = Done (Inr 2)"
    by (simp add: ts sample_chapters_def)
  have t1: "snd (tasks s ! 1) = Done (Inr 1)"
    by (simp add: ts sample_chapters_def)
  have n: "length sample_chapters = 3" by (simp add: sample_chapters_def)
  have "\<exists>p q. p < q
           \<and> q < length (fst (filter_results 0 (outcomes (tasks s)) [] (gworld s)))
           \<and> fst (filter_results 0 (outcomes (tasks s)) [] (gworld s)) ! p = 2
           \<and> fst (filter_results 0 (outcomes (tasks s)) [] (gworld s)) ! q = 1"
    by (rule results_keep_chapter_order [OF run fin, THEN conjunct2, rule_format, of 0 1 2 1])
       (use n t0 t1 in simp)
  with run fin t0 t1 show ?thesis
    by (intro exI [of _ s] conjI)
qed

text \<open>
  With the service of the repository every extraction call raises (see claim C4), so every run
  of the orchestrator ends in the pipeline failure, whatever the chapters and the model.
\<close>

lemma failing_step:
  assumes fails: "\<And>chapter_content ks w. isl (fst (extract chapter_content ks w))"
    and "step extract ks ev s = Some s'"
    and "\<forall>t\<in>set (tasks s). \<forall>r. snd t = Done r \<longrightarrow> isl r"
  shows "\<forall>t\<in>set (tasks s'). \<forall>r. snd t = Done r \<longrightarrow> isl r"
proof (cases ev)
  case (Acquire i)
  with assms(2) have "tasks s' = (tasks s)[i := (fst (tasks s ! i), In_Flight)]"
    by (auto split: if_splits)
  then have "set (tasks s') \<subseteq> insert (fst (tasks s ! i), In_Flight) (set (tasks s))"
    by (simp add: set_update_subset_insert)
  with assms(3) show ?thesis by auto
next
  case (Complete i)
  let ?c = "fst (tasks s ! i)"
  obtain r w where fin: "finish_chapter extract ?c ks (gworld s) = (r, w)"
    by (cases "finish_chapter extract ?c ks (gworld s)")
  obtain r0 w0 where ex: "extract (content ?c) ks (gworld s) = (r0, w0)"
    by (cases "extract (content ?c) ks (gworld s)")
  with fails [of "content ?c" ks "gworld s"] obtain e where "r0 = Inl e"
    by (cases r0) auto
  with ex fin have "isl r"
    by (auto simp: finish_chapter_def)
  moreover from Complete assms(2) fin have "tasks s' = (tasks s)[i := (?c, Done r)]"
    by (auto split: if_splits)
  then have "set (tasks s') \<subseteq> insert (?c, Done r) (set (tasks s))"
    by (simp add: set_update_subset_insert)
  ultimately show ?thesis using assms(3) by auto
qed

lemma failing_run:
  assumes fails: "\<And>chapter_content ks w. isl (fst (extract chapter_content ks w))"
  shows "run_events extract ks evs s = Some s' \<Longrightarrow>
         \<forall>t\<in>set (tasks s). \<forall>r. snd t = Done r \<longrightarrow> isl r \<Longrightarrow>
         \<forall>t\<in>set (tasks s'). \<forall>r. snd t = Done r \<longrightarrow> isl r"
proof (induction evs arbitrary: s)
  case Nil
  then show ?case by simp
next
  case (Cons ev evs)
  from Cons.prems(1) obtain s1 where 1: "step extract ks ev s = Some s1"
    and 2: "run_events extract ks evs s1 = Some s'"
    by (auto split: option.splits)
  from failing_step [OF fails 1 Cons.prems(2)] Cons.IH [OF 2] show ?case by blast
qed

lemma outcomes_all_failed:
  "\<forall>t\<in>set ts. \<forall>r. snd t = Done r \<longrightarrow> isl r \<Longrightarrow> filter (\<lambda>r. \<not> isl r) (outcomes ts) = []"
  by (induction ts rule: outcomes.induct) auto

lemma repository_service_fails:
  assumes "extract_knowledge_points (extract_knowledge_from_chapter dumps llm parse) merge
             max_concurrent_requests chapters ks events w = Some out"
    and "0 \<le> max_concurrent_requests"
  shows "fst out = Inl pipeline_failure"
proof -
  let ?service = "extract_knowledge_from_chapter dumps llm parse"
  let ?w0 = "log_info (''Starting knowledge extraction for '' @ str_nat (length chapters)
                       @ '' chapters'') w"
  from assms obtain s where
    run: "run_events ?service ks events (initial_state (nat max_concurrent_requests) chapters ?w0)
            = Some s"
    and out: "out = reraise_logged (merge_successful merge (outcomes (tasks s)) ks (gworld s))"
    by (auto simp: extract_knowledge_points_def Let_def split: option.splits if_splits)
  have fails: "isl (fst (?service chapter_content ks' w'))" for chapter_content ks' w'
    by (simp add: extract_knowledge_from_chapter_def extract_knowledge_from_chapter_in_def
        module_names_def load_name_def)
  have "\<forall>t\<in>set (tasks (initial_state (nat max_concurrent_requests) chapters ?w0)).
          \<forall>r. snd t = Done r \<longrightarrow> isl r"
    by (auto simp: initial_state_def)
  with failing_run [of ?service ks events _ s, OF fails run]
  have "\<forall>t\<in>set (tasks s). \<forall>r. snd t = Done r \<longrightarrow> isl r"
    by blast
  then have "filter (\<lambda>r. \<not> isl r) (outcomes (tasks s)) = []"
    by (rule outcomes_all_failed)
  then have "fst (filter_results 0 (outcomes (tasks s)) [] (gworld s)) = []"
    by (simp add: fst_filter_results)
  then have "fst (merge_successful merge (outcomes (tasks s)) ks (gworld s)) = Inl pipeline_failure"
    by (simp add: merge_successful_def case_prod_unfold)
  then show ?thesis
    unfolding out
    by (cases "merge_successful merge (outcomes (tasks s)) ks (gworld s)") simp
qed

end
